theory Spec2Isabelle
  imports Complex_Main
begin

section \<open>Errors\<close>

text \<open>
  The notebook defines no exception class of its own.  Every failure it can show is raised
  by Python, numpy or torch; the constructors below name those exceptions.
  \<^item> \<open>IndexError\<close>: an index outside a sequence;
  \<^item> \<open>KeyError\<close>: a key that a dict does not hold;
  \<^item> \<open>ValueError\<close>: numpy's \<open>randint\<close> with \<open>low >= high\<close>, \<open>choice\<close> on an
    empty sequence, \<open>argmax\<close> of an empty axis, comparison of arrays that do not broadcast;
  \<^item> \<open>RuntimeError\<close>: torch's shape errors (a linear layer fed a wrong last dimension,
    an addition whose operands do not broadcast);
  \<^item> \<open>AxisError\<close>: numpy's \<open>argmax\<close> along an axis the array does not have;
  \<^item> \<open>ZeroDivisionError\<close>: Python's float division by zero.
\<close>

datatype error = IndexError | KeyError | ValueError | RuntimeError | AxisError | ZeroDivisionError

definition bindE :: "error + 'a \<Rightarrow> ('a \<Rightarrow> error + 'b) \<Rightarrow> error + 'b" where
  "bindE r f = (case r of Inl e \<Rightarrow> Inl e | Inr v \<Rightarrow> f v)"

section \<open>Tensors\<close>

text \<open>
  Floating-point numbers are read as reals.  A tensor carries its shape beside its
  entries, so that a dimension of size zero does not lose the sizes after it.
  \<open>tensor2\<close> is a matrix (the batch of queries, \<open>B x input_dim\<close>), \<open>tensor3\<close> a
  rank-3 tensor (\<open>B x N x D\<close>), \<open>tensor\<close> a tensor of any rank with its entries in
  row-major order (what \<open>squeeze\<close> returns).
\<close>

record tensor2 =
  nrows :: nat
  ncols :: nat
  vals2 :: "real list list"

record tensor3 =
  dim0 :: nat
  dim1 :: nat
  dim2 :: nat
  vals3 :: "real list list list"

record tensor =
  shape :: "nat list"
  elems :: "real list"

definition wf2 :: "tensor2 \<Rightarrow> bool" where
  "wf2 t \<longleftrightarrow> length (vals2 t) = nrows t \<and> list_all (\<lambda>v. length v = ncols t) (vals2 t)"

definition wf3 :: "tensor3 \<Rightarrow> bool" where
  "wf3 t \<longleftrightarrow> length (vals3 t) = dim0 t \<and>
     list_all (\<lambda>r. length r = dim1 t \<and> list_all (\<lambda>v. length v = dim2 t) r) (vals3 t)"

text \<open>\<open>Tensor.unsqueeze(1)\<close> on a matrix: \<open>(B x D) -> (B x 1 x D)\<close>.\<close>

definition unsqueeze1 :: "tensor2 \<Rightarrow> tensor3" where
  "unsqueeze1 t = \<lparr>dim0 = nrows t, dim1 = 1, dim2 = ncols t, vals3 = map (\<lambda>v. [v]) (vals2 t)\<rparr>"

text \<open>\<open>Tensor.repeat(1, n, 1)\<close> on a rank-3 tensor: the middle dimension is tiled \<open>n\<close> times.\<close>

definition repeat1 :: "nat \<Rightarrow> tensor3 \<Rightarrow> tensor3" where
  "repeat1 n t = t\<lparr>dim1 := dim1 t * n, vals3 := map (\<lambda>r. concat (replicate n r)) (vals3 t)\<rparr>"

definition tanh3 :: "tensor3 \<Rightarrow> tensor3" where
  "tanh3 t = t\<lparr>vals3 := map (map (map tanh)) (vals3 t)\<rparr>"

text \<open>
  Broadcasting of two sizes of one dimension, as torch does it: equal sizes stay, a size 1
  stretches to the other size, anything else is a shape error.
\<close>

definition bdim :: "nat \<Rightarrow> nat \<Rightarrow> nat option" where
  "bdim a b = (if a = b then Some a else if a = 1 then Some b else if b = 1 then Some a else None)"

definition expand :: "nat \<Rightarrow> 'a list \<Rightarrow> 'a list" where
  "expand n xs = (if length xs = 1 then replicate n (hd xs) else xs)"

text \<open>\<open>a + b\<close> on rank-3 tensors, with broadcasting in each dimension.\<close>

definition add3 :: "tensor3 \<Rightarrow> tensor3 \<Rightarrow> error + tensor3" where
  "add3 a b =
     (case (bdim (dim0 a) (dim0 b), bdim (dim1 a) (dim1 b), bdim (dim2 a) (dim2 b)) of
        (Some d0, Some d1, Some d2) \<Rightarrow>
          Inr \<lparr>dim0 = d0, dim1 = d1, dim2 = d2,
               vals3 = map2 (\<lambda>ra rb. map2 (\<lambda>va vb. map2 (+) (expand d2 va) (expand d2 vb))
                                        (expand d1 ra) (expand d1 rb))
                            (expand d0 (vals3 a)) (expand d0 (vals3 b))\<rparr>
      | _ \<Rightarrow> Inl RuntimeError)"

text \<open>\<open>Tensor.squeeze()\<close>: every dimension of size 1 is dropped, the entries stay.\<close>

definition squeeze :: "tensor3 \<Rightarrow> tensor" where
  "squeeze t = \<lparr>shape = filter (\<lambda>d. d \<noteq> 1) [dim0 t, dim1 t, dim2 t],
                elems = concat (concat (vals3 t))\<rparr>"

section \<open>Linear layers\<close>

text \<open>
  \<open>nn.Linear(in_features, out_features)\<close>: a weight matrix of \<open>out_features\<close> rows and
  \<open>in_features\<close> columns and a bias vector (the layer has a bias by default).  Applied
  to a tensor it maps every vector along the last dimension to \<open>W v + b\<close>, and raises
  when the last dimension is not \<open>in_features\<close>.
\<close>

record linear =
  in_features :: nat
  out_features :: nat
  weight :: "real list list"
  bias :: "real list"

definition wf_linear :: "linear \<Rightarrow> bool" where
  "wf_linear l \<longleftrightarrow> length (weight l) = out_features l \<and> length (bias l) = out_features l \<and>
     list_all (\<lambda>w. length w = in_features l) (weight l)"

definition dot :: "real list \<Rightarrow> real list \<Rightarrow> real" where
  "dot w v = sum_list (map2 (*) w v)"

definition linear_vec :: "linear \<Rightarrow> real list \<Rightarrow> real list" where
  "linear_vec l v = map2 (\<lambda>w b. dot w v + b) (weight l) (bias l)"

definition linear3 :: "linear \<Rightarrow> tensor3 \<Rightarrow> error + tensor3" where
  "linear3 l t =
     (if dim2 t \<noteq> in_features l then Inl RuntimeError
      else Inr (t\<lparr>dim2 := out_features l, vals3 := map (map (linear_vec l)) (vals3 t)\<rparr>))"

section \<open>AttentionModel\<close>

record attention_model =
  hidden_dim :: nat
  num_inputs :: nat
  input_dim :: nat
  fc_q :: linear
  fc_k :: linear
  fc_v :: linear

text \<open>
  What \<open>AttentionModel.__init__(input_dim, num_inputs, hidden_dim)\<close> establishes: the three
  layers have the shapes \<open>input_dim -> hidden_dim\<close> (twice) and \<open>hidden_dim -> 1\<close>.  The
  entries of the weights are whatever initialisation and training left there.
\<close>

definition wf_model :: "attention_model \<Rightarrow> bool" where
  "wf_model m \<longleftrightarrow>
     wf_linear (fc_q m) \<and> in_features (fc_q m) = input_dim m \<and> out_features (fc_q m) = hidden_dim m \<and>
     wf_linear (fc_k m) \<and> in_features (fc_k m) = input_dim m \<and> out_features (fc_k m) = hidden_dim m \<and>
     wf_linear (fc_v m) \<and> in_features (fc_v m) = hidden_dim m \<and> out_features (fc_v m) = 1"

text \<open>
  \<open>scoringAdditive(self, query, keys)\<close>: the query is tiled \<open>self.num_inputs\<close> times,
  projected and squashed; the keys are projected and squashed; the sum is squashed and
  mapped to one number per position.
\<close>

definition scoringAdditive :: "attention_model \<Rightarrow> tensor3 \<Rightarrow> tensor3 \<Rightarrow> error + tensor3" where
  "scoringAdditive m query keys =
     bindE (linear3 (fc_q m) (repeat1 (num_inputs m) query)) (\<lambda>q.
     bindE (linear3 (fc_k m) keys) (\<lambda>k.
     bindE (add3 (tanh3 q) (tanh3 k)) (\<lambda>score.
     linear3 (fc_v m) (tanh3 score))))"

text \<open>\<open>forward(self, x, query)\<close>.\<close>

definition forward :: "attention_model \<Rightarrow> tensor3 \<Rightarrow> tensor2 \<Rightarrow> error + tensor" where
  "forward m x query =
     bindE (scoringAdditive m (unsqueeze1 query) x) (\<lambda>output. Inr (squeeze output))"

text \<open>
  The score of one candidate as the specification writes it: the projected and squashed
  query and the projected and squashed candidate are added, squashed again and mapped to
  a number by the value layer.
\<close>

definition additive_score :: "attention_model \<Rightarrow> real list \<Rightarrow> real list \<Rightarrow> real list" where
  "additive_score m q k =
     linear_vec (fc_v m)
       (map tanh (map2 (+) (map tanh (linear_vec (fc_q m) q)) (map tanh (linear_vec (fc_k m) k))))"

text \<open>
  Reordering the candidates of every batch item by a permutation \<open>p\<close> of the positions:
  position \<open>i\<close> of the result holds what position \<open>p i\<close> held.
\<close>

definition permutes_upto :: "nat \<Rightarrow> (nat \<Rightarrow> nat) \<Rightarrow> bool" where
  "permutes_upto n p \<longleftrightarrow> (\<forall>i<n. p i < n) \<and> inj_on p {..<n} \<and> (\<forall>i\<ge>n. p i = i)"

definition reorder :: "(nat \<Rightarrow> nat) \<Rightarrow> 'a list \<Rightarrow> 'a list" where
  "reorder p xs = map (\<lambda>i. xs ! p i) [0..<length xs]"

definition permute1 :: "(nat \<Rightarrow> nat) \<Rightarrow> tensor3 \<Rightarrow> tensor3" where
  "permute1 p t = t\<lparr>vals3 := map (reorder p) (vals3 t)\<rparr>"

section \<open>The scorer, row by row\<close>

text \<open>
  Names for the pieces of \<open>scoringAdditive\<close>, used by the proofs: the tiled and squashed
  query of one batch item, the squashed keys of one batch item, the scores of one batch
  item (the broadcast sum, squashed and fed to the value layer), and those of the batch.
\<close>

definition tiled_query :: "attention_model \<Rightarrow> real list \<Rightarrow> real list list" where
  "tiled_query m v = replicate (num_inputs m) (map tanh (linear_vec (fc_q m) v))"

definition squashed_keys :: "attention_model \<Rightarrow> real list list \<Rightarrow> real list list" where
  "squashed_keys m kr = map (\<lambda>k. map tanh (linear_vec (fc_k m) k)) kr"

definition row_scores :: "attention_model \<Rightarrow> nat \<Rightarrow> nat \<Rightarrow> real list list \<Rightarrow> real list list \<Rightarrow> real list list" where
  "row_scores m d1 d2 qr kr =
     map (linear_vec (fc_v m)) (map (map tanh)
       (map2 (\<lambda>va vb. map2 (+) (expand d2 va) (expand d2 vb)) (expand d1 qr) (expand d1 kr)))"

definition batch_scores :: "attention_model \<Rightarrow> nat \<Rightarrow> nat \<Rightarrow> nat \<Rightarrow> real list list \<Rightarrow> real list list list \<Rightarrow> real list list list" where
  "batch_scores m d0 d1 d2 qs ks =
     map2 (row_scores m d1 d2) (expand d0 (map (tiled_query m) qs)) (expand d0 (map (squashed_keys m) ks))"

section \<open>evaluate\<close>

text \<open>
  \<open>evaluate(model, device, test_loader)\<close> walks the batches the loader yields.  A batch
  holds the candidates \<open>x\<close>, the queries and the targets \<open>y\<close>; \<open>len(test_loader)\<close> is
  the number of batches.  The function prints the accuracy; the model returns it.
\<close>

record batch =
  batch_x :: tensor3
  batch_query :: tensor2
  batch_y :: "nat list"

text \<open>An integer array with its shape: what \<open>np.argmax\<close> returns.\<close>

record itensor =
  ishape :: "nat list"
  ielems :: "nat list"

text \<open>
  \<open>np.argmax\<close> of a non-empty sequence is the index of the first largest entry.
\<close>

fun argmax_from :: "nat \<Rightarrow> nat \<Rightarrow> real \<Rightarrow> real list \<Rightarrow> nat" where
  "argmax_from i best m [] = best"
| "argmax_from i best m (v # vs) =
     (if m < v then argmax_from (i + 1) i v vs else argmax_from (i + 1) best m vs)"

definition argmax_list :: "real list \<Rightarrow> nat" where
  "argmax_list vs = (case vs of [] \<Rightarrow> 0 | v # vs' \<Rightarrow> argmax_from 1 0 v vs')"

text \<open>
  \<open>np.argmax(a, axis=1)\<close>: the array needs two dimensions at least, and the second one
  must not be empty; the result drops the second dimension.
\<close>

definition argmax_axis1 :: "tensor \<Rightarrow> error + itensor" where
  "argmax_axis1 t =
     (case shape t of
        d0 # d1 # rest \<Rightarrow>
          if d1 = 0 then Inl ValueError
          else let k = prod_list rest in
            Inr \<lparr>ishape = d0 # rest,
                 ielems = concat (map (\<lambda>b. map (\<lambda>c.
                            argmax_list (map (\<lambda>j. elems t ! (b * d1 * k + j * k + c)) [0..<d1]))
                            [0..<k]) [0..<d0])\<rparr>
      | _ \<Rightarrow> Inl AxisError)"

text \<open>
  \<open>np.sum(pred == target)\<close> for a one-dimensional \<open>target\<close>: the last dimension of
  \<open>pred\<close> broadcasts against the targets, and the equal pairs are counted.  Arrays that
  do not broadcast make the comparison raise.
\<close>

definition count_equal :: "itensor \<Rightarrow> nat list \<Rightarrow> error + nat" where
  "count_equal pred target =
     (let l = (if ishape pred = [] then 1 else last (ishape pred));
          r = prod_list (butlast (ishape pred))
      in case bdim l (length target) of
           None \<Rightarrow> Inl ValueError
         | Some d \<Rightarrow>
             Inr (sum_list (map (\<lambda>i. length (filter (\<lambda>(a, b). a = b)
                    (zip (expand d (take l (drop (i * l) (ielems pred)))) (expand d target))))
                  [0..<r])))"

text \<open>
  The loop of \<open>evaluate\<close>, with \<open>n = len(test_loader)\<close>: every batch adds its number
  of correct predictions to \<open>ok\<close> and \<open>n\<close> to \<open>total\<close> (written \<open>total'\<close>, the plain
  name being taken in HOL).  Moving tensors between devices and converting them to numpy
  arrays changes no value.  A division by a zero total raises.
\<close>

fun evaluate_loop :: "attention_model \<Rightarrow> nat \<Rightarrow> batch list \<Rightarrow> real \<Rightarrow> real \<Rightarrow> error + real \<times> real" where
  "evaluate_loop m n [] ok total' = Inr (ok, total')"
| "evaluate_loop m n (sample_batched # rest) ok total' =
     bindE (forward m (batch_x sample_batched) (batch_query sample_batched)) (\<lambda>output.
     bindE (argmax_axis1 output) (\<lambda>pred.
     bindE (count_equal pred (batch_y sample_batched)) (\<lambda>c.
     evaluate_loop m n rest (ok + real c) (total' + real n))))"

definition evaluate :: "attention_model \<Rightarrow> batch list \<Rightarrow> error + real" where
  "evaluate m test_loader =
     bindE (evaluate_loop m (length test_loader) test_loader 0 0) (\<lambda>(ok, total').
     if total' = 0 then Inl ZeroDivisionError else Inr (ok / total'))"

section \<open>numpy's random source\<close>

text \<open>
  A call that consumes randomness is a finite distribution: the list of its outcomes,
  each with its probability.  An outcome is an error or a value.  \<open>np.random.randint\<close>
  and \<open>np.random.choice\<close> are uniform, as numpy documents them, and raise
  \<open>ValueError\<close> on an empty range or an empty sequence.
\<close>

type_synonym 'a dist = "('a \<times> real) list"

definition returnD :: "'a \<Rightarrow> (error + 'a) dist" where
  "returnD v = [(Inr v, 1)]"

definition raiseD :: "error \<Rightarrow> (error + 'a) dist" where
  "raiseD e = [(Inl e, 1)]"

definition liftE :: "error + 'a \<Rightarrow> (error + 'a) dist" where
  "liftE r = [(r, 1)]"

definition bindD :: "(error + 'a) dist \<Rightarrow> ('a \<Rightarrow> (error + 'b) dist) \<Rightarrow> (error + 'b) dist" where
  "bindD d f = concat (map (\<lambda>(r, p). case r of Inl e \<Rightarrow> [(Inl e, p)]
                                          | Inr v \<Rightarrow> map (\<lambda>(s, q). (s, p * q)) (f v)) d)"

definition uniform :: "'a list \<Rightarrow> 'a dist" where
  "uniform xs = map (\<lambda>v. (v, 1 / real (length xs))) xs"

definition randint :: "nat \<Rightarrow> nat \<Rightarrow> (error + nat) dist" where
  "randint low high = (if high \<le> low then raiseD ValueError else uniform (map Inr [low..<high]))"

definition choice :: "'a list \<Rightarrow> (error + 'a) dist" where
  "choice a = (if a = [] then raiseD ValueError else uniform (map Inr a))"

section \<open>MNISTAttentionDataset\<close>

text \<open>
  The corpus is torchvision's MNIST: a list of images with their labels.  An image is
  read as the list of its 784 pixel values, row by row, so that \<open>flatten\<close> changes
  nothing; \<open>normalise\<close> is the division by 255.  The dataset object holds
  \<open>self.num_inputs\<close> (the field \<open>ds_num_inputs\<close>), the corpus and the dict \<open>data\<close>
  from a label to the normalised images of that label.  A sample is the dict with the
  keys \<open>x\<close>, \<open>query\<close> and \<open>y\<close>.
\<close>

type_synonym image = "nat list"

record dataset =
  ds_num_inputs :: nat
  mnist :: "(image \<times> nat) list"
  data :: "nat \<rightharpoonup> real list list"

record sample =
  sample_x :: "real list list"
  sample_query :: "real list"
  sample_y :: nat

definition normalise :: "image \<Rightarrow> real list" where
  "normalise img = map (\<lambda>p. real p / 255) img"

text \<open>\<open>__init__(self, num_inputs, train)\<close>, the corpus standing for the downloaded split.\<close>

definition dataset_init :: "nat \<Rightarrow> (image \<times> nat) list \<Rightarrow> dataset" where
  "dataset_init n corpus =
     \<lparr>ds_num_inputs = n, mnist = corpus,
      data = fold (\<lambda>label d. d(label \<mapsto> map (\<lambda>(img, t). normalise img)
                                              (filter (\<lambda>(img, t). t = label) corpus)))
               [0..<10] Map.empty\<rparr>"

text \<open>
  Indexing a sequence with a Python integer (negative indices count from the end) and
  looking a key up in a dict.
\<close>

definition py_index :: "'a list \<Rightarrow> int \<Rightarrow> error + 'a" where
  "py_index xs i =
     (let n = int (length xs); j = (if i < 0 then n + i else i)
      in if 0 \<le> j \<and> j < n then Inr (xs ! nat j) else Inl IndexError)"

definition dict_get :: "('k \<rightharpoonup> 'v) \<Rightarrow> 'k \<Rightarrow> error + 'v" where
  "dict_get d k = (case d k of None \<Rightarrow> Inl KeyError | Some v \<Rightarrow> Inr v)"

text \<open>
  The body of the loop of \<open>__getitem__\<close> for position \<open>j\<close>: the row to store in
  \<open>inputs[j,:]\<close>.  \<open>c\<close> is the class of the query.
\<close>

definition place :: "dataset \<Rightarrow> nat \<Rightarrow> nat \<Rightarrow> nat \<Rightarrow> (error + real list) dist" where
  "place ds c correct_pos j =
     (if j = correct_pos then
        bindD (liftE (dict_get (data ds) ((c + 1) mod 10))) (\<lambda>pool.
        bindD (randint 0 (length pool)) (\<lambda>idx.
        liftE (py_index pool (int idx))))
      else
        bindD (choice [n \<leftarrow> [0, 1, 2, 3, 4, 5, 6, 7, 8, 9]. n \<noteq> (c + 1) mod 10]) (\<lambda>c_distractor.
        bindD (liftE (dict_get (data ds) c_distractor)) (\<lambda>pool.
        bindD (randint 0 (length pool)) (\<lambda>idx.
        liftE (py_index pool (int idx))))))"

text \<open>The loop \<open>for j in range(self.num_inputs)\<close> over the positions still to fill.\<close>

fun fill :: "dataset \<Rightarrow> nat \<Rightarrow> nat \<Rightarrow> nat list \<Rightarrow> real list list \<Rightarrow> (error + real list list) dist" where
  "fill ds c correct_pos [] inputs = returnD inputs"
| "fill ds c correct_pos (j # js) inputs =
     bindD (place ds c correct_pos j) (\<lambda>row. fill ds c correct_pos js (inputs[j := row]))"

text \<open>\<open>__getitem__(self, idx)\<close>.\<close>

definition getitem :: "dataset \<Rightarrow> int \<Rightarrow> (error + sample) dist" where
  "getitem ds idx =
     bindD (liftE (py_index (mnist ds) idx)) (\<lambda>(img, c).
     bindD (randint 0 (ds_num_inputs ds)) (\<lambda>correct_pos.
     bindD (fill ds c correct_pos [0..<ds_num_inputs ds]
              (replicate (ds_num_inputs ds) (replicate 784 0))) (\<lambda>inputs.
     returnD \<lparr>sample_x = inputs, sample_query = normalise img, sample_y = correct_pos\<rparr>)))"

section \<open>Notions the claims are stated with\<close>

text \<open>
  Probability of an event, the set of possible outcomes and the total weight of a
  distribution; the image of a distribution under a function of its values.
\<close>

definition prob :: "'a dist \<Rightarrow> ('a \<Rightarrow> bool) \<Rightarrow> real" where
  "prob d P = sum_list (map snd (filter (\<lambda>(r, p). P r) d))"

definition outcomes :: "'a dist \<Rightarrow> 'a set" where
  "outcomes d = fst ` set d"

definition mass :: "'a dist \<Rightarrow> real" where
  "mass d = sum_list (map snd d)"

definition mapD :: "('a \<Rightarrow> 'b) \<Rightarrow> (error + 'a) dist \<Rightarrow> (error + 'b) dist" where
  "mapD f d = map (\<lambda>(r, p). (case r of Inl e \<Rightarrow> Inl e | Inr v \<Rightarrow> Inr (f v), p)) d"

text \<open>
  \<open>returns Q\<close> holds of an outcome that is a value satisfying \<open>Q\<close>; \<open>succeeded\<close> of
  an outcome that is a value.
\<close>

definition returns :: "('a \<Rightarrow> bool) \<Rightarrow> error + 'a \<Rightarrow> bool" where
  "returns Q r = (case r of Inl e \<Rightarrow> False | Inr v \<Rightarrow> Q v)"

definition succeeded :: "error + 'a \<Rightarrow> bool" where
  "succeeded r = (case r of Inl e \<Rightarrow> False | Inr v \<Rightarrow> True)"

text \<open>
  The pool of a label in a dataset, and the images of a label in a corpus, normalised, in
  the order of the corpus.
\<close>

definition pool_of :: "dataset \<Rightarrow> nat \<Rightarrow> real list list" where
  "pool_of ds l = (case data ds l of None \<Rightarrow> [] | Some p \<Rightarrow> p)"

definition items_of :: "(image \<times> nat) list \<Rightarrow> nat \<Rightarrow> real list list" where
  "items_of corpus l = map (\<lambda>(img, t). normalise img) (filter (\<lambda>(img, t). t = l) corpus)"

text \<open>
  The class a position may draw from: the successor class of the query at the correct
  position, any other class in 0..9 elsewhere.
\<close>

definition class_ok :: "nat \<Rightarrow> nat \<Rightarrow> nat \<Rightarrow> nat \<Rightarrow> bool" where
  "class_ok c correct_pos j cls =
     (if j = correct_pos then cls = (c + 1) mod 10 else cls < 10 \<and> cls \<noteq> (c + 1) mod 10)"

text \<open>
  \<open>__getitem__\<close> with a record of the class each position drew from.  \<open>draw_from\<close> is
  the pair of lines both branches of the loop body share (an index into the pool of a
  class, then the image at that index); \<open>others\<close> is the list the distractor class is
  chosen from.  The instrumented functions differ from \<open>place\<close>, \<open>fill\<close> and
  \<open>getitem\<close> only in returning the classes as well.
\<close>

definition draw_from :: "dataset \<Rightarrow> nat \<Rightarrow> (error + real list) dist" where
  "draw_from ds cls =
     bindD (liftE (dict_get (data ds) cls)) (\<lambda>pool.
     bindD (randint 0 (length pool)) (\<lambda>idx.
     liftE (py_index pool (int idx))))"

definition others :: "nat \<Rightarrow> nat list" where
  "others t = [n \<leftarrow> [0, 1, 2, 3, 4, 5, 6, 7, 8, 9]. n \<noteq> t]"

definition place_traced :: "dataset \<Rightarrow> nat \<Rightarrow> nat \<Rightarrow> nat \<Rightarrow> (error + nat \<times> real list) dist" where
  "place_traced ds c correct_pos j =
     (if j = correct_pos then mapD (Pair ((c + 1) mod 10)) (draw_from ds ((c + 1) mod 10))
      else
        bindD (choice (others ((c + 1) mod 10))) (\<lambda>c_distractor.
        mapD (Pair c_distractor) (draw_from ds c_distractor)))"

fun fill_traced :: "dataset \<Rightarrow> nat \<Rightarrow> nat \<Rightarrow> nat list \<Rightarrow> real list list \<Rightarrow>
    (error + real list list \<times> nat list) dist" where
  "fill_traced ds c correct_pos [] inputs = returnD (inputs, [])"
| "fill_traced ds c correct_pos (j # js) inputs =
     bindD (place_traced ds c correct_pos j) (\<lambda>(cls, row).
     mapD (\<lambda>(inp, clss). (inp, cls # clss)) (fill_traced ds c correct_pos js (inputs[j := row])))"

definition getitem_traced :: "dataset \<Rightarrow> int \<Rightarrow> (error + sample \<times> nat list) dist" where
  "getitem_traced ds idx =
     bindD (liftE (py_index (mnist ds) idx)) (\<lambda>(img, c).
     bindD (randint 0 (ds_num_inputs ds)) (\<lambda>correct_pos.
     mapD (\<lambda>(inputs, clss).
             (\<lparr>sample_x = inputs, sample_query = normalise img, sample_y = correct_pos\<rparr>, clss))
          (fill_traced ds c correct_pos [0..<ds_num_inputs ds]
              (replicate (ds_num_inputs ds) (replicate 784 0)))))"

text \<open>The number of correct predictions \<open>evaluate\<close> counts in one batch.\<close>

definition batch_correct :: "attention_model \<Rightarrow> batch \<Rightarrow> error + nat" where
  "batch_correct m b =
     bindE (forward m (batch_x b) (batch_query b)) (\<lambda>output.
     bindE (argmax_axis1 output) (\<lambda>pred. count_equal pred (batch_y b)))"

section \<open>Concrete inputs\<close>

text \<open>
  A model with two inputs per item, vectors of length two and identity-like projections,
  the same model built for one input, and a few batches of two items.
\<close>

definition ex_model :: attention_model where
  "ex_model = \<lparr>hidden_dim = 2, num_inputs = 2, input_dim = 2,
       fc_q = \<lparr>in_features = 2, out_features = 2, weight = [[1, 0], [0, 1]], bias = [0, 0]\<rparr>,
       fc_k = \<lparr>in_features = 2, out_features = 2, weight = [[1, 0], [0, 1]], bias = [0, 0]\<rparr>,
       fc_v = \<lparr>in_features = 2, out_features = 1, weight = [[1, 1]], bias = [0]\<rparr>\<rparr>"

definition ex_model1 :: attention_model where
  "ex_model1 = ex_model\<lparr>num_inputs := 1\<rparr>"

definition ex_query :: tensor2 where
  "ex_query = \<lparr>nrows = 2, ncols = 2, vals2 = [[1, 0], [0, 1]]\<rparr>"

definition ex_keys :: tensor3 where
  "ex_keys = \<lparr>dim0 = 2, dim1 = 2, dim2 = 2, vals3 = [[[0, 0], [1, 1]], [[1, 0], [0, 0]]]\<rparr>"

definition ex_keys1 :: tensor3 where
  "ex_keys1 = \<lparr>dim0 = 2, dim1 = 1, dim2 = 2, vals3 = [[[0, 0]], [[1, 0]]]\<rparr>"

definition ex_keys3 :: tensor3 where
  "ex_keys3 = \<lparr>dim0 = 2, dim1 = 3, dim2 = 2,
       vals3 = [[[0, 0], [1, 1], [0, 1]], [[1, 0], [0, 0], [1, 1]]]\<rparr>"

definition ex_keys0 :: tensor3 where
  "ex_keys0 = \<lparr>dim0 = 2, dim1 = 0, dim2 = 2, vals3 = [[], []]\<rparr>"

definition ex_keys_wide :: tensor3 where
  "ex_keys_wide = \<lparr>dim0 = 2, dim1 = 2, dim2 = 3,
       vals3 = [[[0, 0, 0], [1, 1, 1]], [[1, 0, 0], [0, 0, 0]]]\<rparr>"

definition swap01 :: "nat \<Rightarrow> nat" where
  "swap01 i = (if i = 0 then 1 else if i = 1 then 0 else i)"

definition ex_model0 :: attention_model where
  "ex_model0 = \<lparr>hidden_dim = 2, num_inputs = 2, input_dim = 2,
       fc_q = \<lparr>in_features = 2, out_features = 2, weight = [[0, 0], [0, 0]], bias = [0, 0]\<rparr>,
       fc_k = \<lparr>in_features = 2, out_features = 2, weight = [[0, 0], [0, 0]], bias = [0, 0]\<rparr>,
       fc_v = \<lparr>in_features = 2, out_features = 1, weight = [[0, 0]], bias = [0]\<rparr>\<rparr>"

text \<open>A batch of two samples whose targets are both position 0.\<close>

definition ex_batch :: batch where
  "ex_batch = \<lparr>batch_x = ex_keys, batch_query = ex_query, batch_y = [0, 0]\<rparr>"

text \<open>
  A corpus with one image of every digit, and one with the digits 0, 1 and 2 only.
\<close>

definition ex_corpus :: "(image \<times> nat) list" where
  "ex_corpus = [(replicate 784 0, 0), (replicate 784 10, 1), (replicate 784 20, 2),
                (replicate 784 30, 3), (replicate 784 40, 4), (replicate 784 50, 5),
                (replicate 784 60, 6), (replicate 784 70, 7), (replicate 784 80, 8),
                (replicate 784 90, 9)]"

definition ex_corpus_gap :: "(image \<times> nat) list" where
  "ex_corpus_gap = [(replicate 784 0, 0), (replicate 784 10, 1), (replicate 784 20, 2)]"



section \<open>Lists, broadcasting and reordering\<close>

lemma expand_id: "length xs = n \<Longrightarrow> expand n xs = xs"
  by (cases xs) (auto simp: expand_def)

lemma expand_map: "expand n (map f xs) = map f (expand n xs)"
  by (cases xs) (auto simp: expand_def)

lemma expand_single: "length xs = 1 \<Longrightarrow> expand n xs = replicate n (hd xs)"
  by (simp add: expand_def)

lemma set_expand: "set (expand n xs) \<subseteq> set xs"
  by (cases xs) (auto simp: expand_def)

lemma bdim_same: "bdim a a = Some a"
  by (simp add: bdim_def)

lemma bdim_tile: "n = k \<or> n = 1 \<Longrightarrow> bdim n k = Some k"
  by (auto simp: bdim_def)

lemma bdim_tiled: "bdim n k = Some d1 \<Longrightarrow> k \<noteq> 1 \<or> n = 1 \<Longrightarrow> d1 = k"
  by (auto simp: bdim_def split: if_splits)

lemma bdim_one_right: "bdim n 1 = Some d1 \<Longrightarrow> d1 = n"
  by (auto simp: bdim_def split: if_splits)

lemma expand_replicate_eq:
  "bdim n k = Some d1 \<Longrightarrow> k \<noteq> 1 \<or> n = 1 \<Longrightarrow> expand d1 (replicate n x) = replicate k x"
  by (auto simp: bdim_def expand_def split: if_splits)

lemma expand_other_eq:
  "bdim n k = Some d1 \<Longrightarrow> k \<noteq> 1 \<or> n = 1 \<Longrightarrow> length ys = k \<Longrightarrow> expand d1 ys = ys"
  using bdim_tiled expand_id by blast

lemma map2_replicate_left: "length ys = n \<Longrightarrow> map2 f (replicate n x) ys = map (f x) ys"
  by (induction ys arbitrary: n) auto

lemma map2_replicate_both: "map2 f (replicate n a) (replicate n b) = replicate n (f a b)"
  by (induction n) auto

lemma concat_replicate_single: "concat (replicate n [v]) = replicate n v"
  by (induction n) auto

lemma length_concat_const:
  "(\<And>x. x \<in> set xs \<Longrightarrow> length x = n) \<Longrightarrow> length (concat xs) = length xs * n"
  by (induction xs) auto

lemma map2_cong_zip:
  "(\<And>x y. (x, y) \<in> set (zip xs ys) \<Longrightarrow> f x y = g x y) \<Longrightarrow> map2 f xs ys = map2 g xs ys"
  by auto

lemma map2_map_map_cong:
  "(\<And>x y. (x, y) \<in> set (zip xs ys) \<Longrightarrow> f (g x) (h y) = k x y) \<Longrightarrow>
   map2 f (map g xs) (map h ys) = map2 k xs ys"
  by (auto simp: zip_map_map)

lemma map2_reorder_cong:
  "(\<And>x y. (x, y) \<in> set (zip xs ys) \<Longrightarrow> f x (r y) = r' (f x y)) \<Longrightarrow>
   map2 f xs (map r ys) = map r' (map2 f xs ys)"
  by (auto simp: zip_map2)

lemma reorder_map:
  "(\<And>i. i < length xs \<Longrightarrow> p i < length xs) \<Longrightarrow> reorder p (map f xs) = map f (reorder p xs)"
  by (simp add: reorder_def)

lemma length_reorder: "length (reorder p xs) = length xs"
  by (simp add: reorder_def)

lemma reorder_replicate:
  "(\<And>i. i < n \<Longrightarrow> p i < n) \<Longrightarrow> reorder p (replicate n x) = replicate n x"
  by (auto simp: reorder_def intro!: nth_equalityI)

lemma reorder_single: "length xs = 1 \<Longrightarrow> p 0 = 0 \<Longrightarrow> reorder p xs = xs"
  by (cases xs) (auto simp: reorder_def)

lemma permutes_upto_lt: "permutes_upto n p \<Longrightarrow> i < n \<Longrightarrow> p i < n"
  by (simp add: permutes_upto_def)

lemma permutes_upto_any:
  assumes "permutes_upto n p" "n \<le> k" "i < k"
  shows "p i < k"
proof (cases "i < n")
  case True
  then have "p i < n" using assms(1) unfolding permutes_upto_def by blast
  then show ?thesis using assms(2) by simp
next
  case False
  then have "p i = i" using assms(1) unfolding permutes_upto_def by simp
  then show ?thesis using assms(3) by simp
qed

section \<open>Shapes\<close>

lemma wf3_rowD: "wf3 t \<Longrightarrow> r \<in> set (vals3 t) \<Longrightarrow> length r = dim1 t"
  by (auto simp: wf3_def list_all_iff)

lemma wf3_len: "wf3 t \<Longrightarrow> length (vals3 t) = dim0 t"
  by (simp add: wf3_def)

lemma wf2_len: "wf2 t \<Longrightarrow> length (vals2 t) = nrows t"
  by (simp add: wf2_def)

lemma length_linear_vec: "wf_linear l \<Longrightarrow> length (linear_vec l v) = out_features l"
  by (simp add: wf_linear_def linear_vec_def)

lemma length_additive_score: "wf_model m \<Longrightarrow> length (additive_score m q k) = 1"
  by (simp add: additive_score_def wf_model_def length_linear_vec)

lemma length_squashed_keys: "length (squashed_keys m kr) = length kr"
  by (simp add: squashed_keys_def)

lemma permute1_dims:
  "dim0 (permute1 p t) = dim0 t" "dim1 (permute1 p t) = dim1 t" "dim2 (permute1 p t) = dim2 t"
  "vals3 (permute1 p t) = map (reorder p) (vals3 t)"
  by (simp_all add: permute1_def)

lemma wf_ex_model: "wf_model ex_model" "wf_model ex_model1"
  by (simp_all add: ex_model_def ex_model1_def wf_model_def wf_linear_def)

lemma wf_ex_tensors:
  "wf2 ex_query" "wf3 ex_keys" "wf3 ex_keys1" "wf3 ex_keys3" "wf3 ex_keys0" "wf3 ex_keys_wide"
  by (simp_all add: ex_query_def ex_keys_def ex_keys1_def ex_keys3_def ex_keys0_def
      ex_keys_wide_def wf2_def wf3_def)

lemma permutes_swap01: "permutes_upto 2 swap01"
  by (auto simp: permutes_upto_def swap01_def inj_on_def)

section \<open>What scoringAdditive computes\<close>

text \<open>
  The scorer unfolded once and for all: the two projections check the last dimension of
  their input, the sum checks that the three dimensions broadcast, the value layer checks
  the hidden dimension; every failure is torch's \<open>RuntimeError\<close>.
\<close>

lemma scoring_closed:
  "scoringAdditive m (unsqueeze1 query) keys =
    (if ncols query \<noteq> in_features (fc_q m) \<or> dim2 keys \<noteq> in_features (fc_k m) then Inl RuntimeError
     else case (bdim (nrows query) (dim0 keys), bdim (num_inputs m) (dim1 keys),
                bdim (out_features (fc_q m)) (out_features (fc_k m))) of
        (Some d0, Some d1, Some d2) \<Rightarrow>
           if d2 \<noteq> in_features (fc_v m) then Inl RuntimeError
           else Inr \<lparr>dim0 = d0, dim1 = d1, dim2 = out_features (fc_v m),
                     vals3 = batch_scores m d0 d1 d2 (vals2 query) (vals3 keys)\<rparr>
      | _ \<Rightarrow> Inl RuntimeError)"
  apply (simp add: scoringAdditive_def bindE_def linear3_def repeat1_def unsqueeze1_def tanh3_def
      add3_def split: option.splits)
  apply (auto simp: concat_replicate_single o_def map_replicate zip_map_map map_zip_map
      map_zip_map2 row_scores_def[abs_def] tiled_query_def[abs_def] squashed_keys_def[abs_def]
      batch_scores_def)
  done

lemma row_sum_plain:
  assumes "\<And>x. x \<in> set xs \<Longrightarrow> length x = h" "\<And>y. y \<in> set ys \<Longrightarrow> length y = h"
  shows "map2 (\<lambda>va vb. map2 (+) (expand h va) (expand h vb)) xs ys =
         map2 (\<lambda>va vb. map2 (+) va vb) xs ys"
proof (rule map2_cong_zip)
  fix x y assume "(x, y) \<in> set (zip xs ys)"
  then have "x \<in> set xs" "y \<in> set ys"
    by (auto dest: set_zip_leftD set_zip_rightD)
  then have "length x = h" "length y = h" using assms by auto
  then show "map2 (+) (expand h x) (expand h y) = map2 (+) x y"
    by (simp add: expand_id)
qed

lemma row_formula:
  assumes wf: "wf_model m" and len: "length ks = n" and b: "bdim (num_inputs m) n = Some d1"
    and n1: "n \<noteq> 1 \<or> num_inputs m = 1"
  shows "row_scores m d1 (hidden_dim m) (tiled_query m q) (squashed_keys m ks) =
         map (additive_score m q) ks"
proof -
  let ?qh = "map tanh (linear_vec (fc_q m) q)"
  let ?kf = "\<lambda>k. map tanh (linear_vec (fc_k m) k)"
  have lq: "length ?qh = hidden_dim m"
    using wf by (simp add: wf_model_def length_linear_vec)
  have lk: "\<And>k. k \<in> set ks \<Longrightarrow> length (?kf k) = hidden_dim m"
    using wf by (simp add: wf_model_def length_linear_vec)
  have e1: "expand d1 (replicate (num_inputs m) ?qh) = replicate n ?qh"
    by (rule expand_replicate_eq[OF b n1])
  have e2: "expand d1 (map ?kf ks) = map ?kf ks"
    by (rule expand_other_eq[OF b n1]) (simp add: len)
  have "map2 (\<lambda>va vb. map2 (+) (expand (hidden_dim m) va) (expand (hidden_dim m) vb))
               (expand d1 (replicate (num_inputs m) ?qh)) (expand d1 (map ?kf ks))
        = map2 (\<lambda>va vb. map2 (+) (expand (hidden_dim m) va) (expand (hidden_dim m) vb))
               (replicate n ?qh) (map ?kf ks)"
    by (simp only: e1 e2)
  also have "\<dots> = map2 (\<lambda>va vb. map2 (+) va vb) (replicate n ?qh) (map ?kf ks)"
    by (rule row_sum_plain[where h = "hidden_dim m"]) (use lq lk in auto)
  also have "\<dots> = map (\<lambda>vb. map2 (+) ?qh vb) (map ?kf ks)"
    by (rule map2_replicate_left) (simp add: len)
  finally show ?thesis
    by (simp add: additive_score_def o_def row_scores_def tiled_query_def squashed_keys_def)
qed

lemma scoring_formula_aux:
  assumes wf: "wf_model m" and q: "wf2 query" and k: "wf3 keys"
    and dq: "ncols query = input_dim m" and dk: "dim2 keys = input_dim m"
    and bb: "nrows query = dim0 keys"
    and nn: "dim1 keys = num_inputs m \<or> num_inputs m = 1"
  shows "scoringAdditive m (unsqueeze1 query) keys =
           Inr \<lparr>dim0 = dim0 keys, dim1 = dim1 keys, dim2 = 1,
                vals3 = map2 (\<lambda>q ks. map (additive_score m q) ks) (vals2 query) (vals3 keys)\<rparr>"
proof -
  have bd: "bdim (num_inputs m) (dim1 keys) = Some (dim1 keys)"
    using nn by (auto intro: bdim_tile)
  have n1: "dim1 keys \<noteq> 1 \<or> num_inputs m = 1"
    using nn by auto
  have lq: "length (vals2 query) = dim0 keys" using q bb by (simp add: wf2_len)
  have lk: "length (vals3 keys) = dim0 keys" using k by (simp add: wf3_len)
  have "batch_scores m (dim0 keys) (dim1 keys) (hidden_dim m) (vals2 query) (vals3 keys) =
        map2 (row_scores m (dim1 keys) (hidden_dim m))
                (map (tiled_query m) (vals2 query)) (map (squashed_keys m) (vals3 keys))"
    unfolding batch_scores_def by (simp add: expand_id lq lk)
  also have "\<dots> = map2 (\<lambda>q ks. map (additive_score m q) ks) (vals2 query) (vals3 keys)"
  proof (rule map2_map_map_cong)
    fix x y assume "(x, y) \<in> set (zip (vals2 query) (vals3 keys))"
    then have "y \<in> set (vals3 keys)"
      by (rule set_zip_rightD)
    then have "length y = dim1 keys"
      using k by (simp add: wf3_rowD)
    then show "row_scores m (dim1 keys) (hidden_dim m) (tiled_query m x) (squashed_keys m y)
          = map (additive_score m x) y"
      by (rule row_formula[OF wf _ bd n1])
  qed
  finally have rows:
    "batch_scores m (dim0 keys) (dim1 keys) (hidden_dim m) (vals2 query) (vals3 keys) =
        map2 (\<lambda>q ks. map (additive_score m q) ks) (vals2 query) (vals3 keys)" .
  show ?thesis
    using wf dq dk bb
    by (simp add: scoring_closed wf_model_def bdim_same bd rows)
qed

lemma row_scores_reorder:
  assumes p: "permutes_upto n p" and len: "length kr = n"
    and b: "bdim (num_inputs m) n = Some d1"
  shows "row_scores m d1 d2 (tiled_query m v) (reorder p kr) =
         reorder p (row_scores m d1 d2 (tiled_query m v) kr)"
proof (cases "n = 1")
  case False
  let ?g = "\<lambda>va vb. map2 (+) (expand d2 va) (expand d2 vb)"
  let ?qh = "map tanh (linear_vec (fc_q m) v)"
  have n1: "n \<noteq> 1 \<or> num_inputs m = 1" using False by simp
  have e1: "expand d1 (replicate (num_inputs m) ?qh) = replicate n ?qh"
    by (rule expand_replicate_eq[OF b n1])
  have e2: "expand d1 kr = kr" "expand d1 (reorder p kr) = reorder p kr"
    by (rule expand_other_eq[OF b n1]; simp add: len length_reorder)+
  have pl: "\<And>i. i < length kr \<Longrightarrow> p i < length kr"
    using p len by (simp add: permutes_upto_lt)
  have "map2 ?g (replicate n ?qh) (reorder p kr) = map (?g ?qh) (reorder p kr)"
    by (rule map2_replicate_left) (simp add: len length_reorder)
  moreover have "map2 ?g (replicate n ?qh) kr = map (?g ?qh) kr"
    by (rule map2_replicate_left) (simp add: len)
  ultimately show ?thesis
    unfolding row_scores_def tiled_query_def e1 e2
    by (simp add: reorder_map[OF pl] length_reorder)
next
  case True
  let ?g = "\<lambda>va vb. map2 (+) (expand d2 va) (expand d2 vb)"
  let ?qh = "map tanh (linear_vec (fc_q m) v)"
  have d1: "d1 = num_inputs m" using b True by (simp add: bdim_one_right)
  have p0: "p 0 = 0" using p True permutes_upto_lt[of n p 0] by simp
  have r: "reorder p kr = kr" using len True p0 by (simp add: reorder_single)
  have pm: "\<And>i. i < num_inputs m \<Longrightarrow> p i < num_inputs m"
    using p True by (intro permutes_upto_any[of n p]) auto
  have e1: "expand d1 (replicate (num_inputs m) ?qh) = replicate (num_inputs m) ?qh"
    unfolding d1 by (rule expand_id) simp
  have e2: "expand d1 kr = replicate (num_inputs m) (hd kr)"
    unfolding d1 using len True by (simp add: expand_single)
  have "row_scores m d1 d2 (tiled_query m v) kr =
          replicate (num_inputs m) (linear_vec (fc_v m) (map tanh (?g ?qh (hd kr))))"
    unfolding row_scores_def tiled_query_def e1 e2 map2_replicate_both by simp
  then show ?thesis
    unfolding r by (simp add: reorder_replicate[OF pm])
qed

lemma squashed_keys_reorder:
  "permutes_upto (length kr) p \<Longrightarrow>
   squashed_keys m (reorder p kr) = reorder p (squashed_keys m kr)"
  unfolding squashed_keys_def by (rule reorder_map[symmetric]) (simp add: permutes_upto_lt)

lemma batch_scores_reorder:
  assumes k: "\<And>kr. kr \<in> set ks \<Longrightarrow> length kr = n" and p: "permutes_upto n p"
    and b: "bdim (num_inputs m) n = Some d1"
  shows "batch_scores m d0 d1 d2 qs (map (reorder p) ks) =
         map (reorder p) (batch_scores m d0 d1 d2 qs ks)"
proof -
  have sq: "map (squashed_keys m) (map (reorder p) ks) = map (reorder p) (map (squashed_keys m) ks)"
    using k p by (simp add: squashed_keys_reorder)
  have "batch_scores m d0 d1 d2 qs (map (reorder p) ks) =
        map2 (row_scores m d1 d2) (expand d0 (map (tiled_query m) qs))
          (map (reorder p) (expand d0 (map (squashed_keys m) ks)))"
    unfolding batch_scores_def sq by (simp only: expand_map)
  also have "\<dots> = map (reorder p) (map2 (row_scores m d1 d2) (expand d0 (map (tiled_query m) qs))
          (expand d0 (map (squashed_keys m) ks)))"
  proof (rule map2_reorder_cong)
    fix x y
    assume "(x, y) \<in> set (zip (expand d0 (map (tiled_query m) qs))
                               (expand d0 (map (squashed_keys m) ks)))"
    then have "x \<in> set (expand d0 (map (tiled_query m) qs))"
      "y \<in> set (expand d0 (map (squashed_keys m) ks))"
      by (auto dest: set_zip_leftD set_zip_rightD)
    then have "x \<in> set (map (tiled_query m) qs)" "y \<in> set (map (squashed_keys m) ks)"
      by (meson set_expand subsetD)+
    then obtain v kr where x: "x = tiled_query m v" and y: "y = squashed_keys m kr"
      and kr: "kr \<in> set ks"
      by auto
    have "length y = n"
      using k kr by (simp add: y length_squashed_keys)
    then show "row_scores m d1 d2 x (reorder p y) = reorder p (row_scores m d1 d2 x y)"
      unfolding x by (intro row_scores_reorder[OF p _ b])
  qed
  finally show ?thesis unfolding batch_scores_def .
qed

section \<open>The claims about the scorer\<close>

text \<open>
  C2, as amended.  For every model built by \<open>__init__\<close>, every batch of queries and every
  batch of candidate sequences of matching dimensions whose candidate count equals the
  model's \<open>num_inputs\<close> (or whose model has \<open>num_inputs = 1\<close>), \<open>scoringAdditive\<close> returns,
  for every batch item, the ordered sequence of the scores of its candidates, the score
  of candidate \<open>k\<close> for query \<open>q\<close> being the value layer applied to
  \<open>tanh (tanh (fc_q q) + tanh (fc_k k))\<close>; the layers add their bias.
\<close>

theorem scoringAdditive_formula:
  assumes "wf_model m" and "wf2 query" and "wf3 keys"
    and "ncols query = input_dim m" and "dim2 keys = input_dim m"
    and "nrows query = dim0 keys"
    and "dim1 keys = num_inputs m \<or> num_inputs m = 1"
  shows "scoringAdditive m (unsqueeze1 query) keys =
           Inr \<lparr>dim0 = dim0 keys, dim1 = dim1 keys, dim2 = 1,
                vals3 = map2 (\<lambda>q ks. map (additive_score m q) ks) (vals2 query) (vals3 keys)\<rparr>"
  using assms by (rule scoring_formula_aux)

theorem scoringAdditive_formula_witness:
  "wf_model ex_model \<and> wf2 ex_query \<and> wf3 ex_keys \<and> dim1 ex_keys = num_inputs ex_model \<and>
   scoringAdditive ex_model (unsqueeze1 ex_query) ex_keys =
     Inr \<lparr>dim0 = 2, dim1 = 2, dim2 = 1,
          vals3 = [[additive_score ex_model [1, 0] [0, 0], additive_score ex_model [1, 0] [1, 1]],
                   [additive_score ex_model [0, 1] [1, 0], additive_score ex_model [0, 1] [0, 0]]]\<rparr>"
  using scoringAdditive_formula[of ex_model ex_query ex_keys] wf_ex_model wf_ex_tensors
  by (simp add: ex_model_def ex_query_def ex_keys_def)

text \<open>
  C2 as stated fails: a model built for two inputs, given one candidate per item, returns
  two scores per item (the score of the one candidate, twice) and not the sequence of one
  score.
\<close>

theorem scoringAdditive_formula_counterexample:
  "wf_model ex_model \<and> wf2 ex_query \<and> wf3 ex_keys1 \<and> dim1 ex_keys1 = 1 \<and>
   scoringAdditive ex_model (unsqueeze1 ex_query) ex_keys1 =
     Inr \<lparr>dim0 = 2, dim1 = 2, dim2 = 1,
          vals3 = [[additive_score ex_model [1, 0] [0, 0], additive_score ex_model [1, 0] [0, 0]],
                   [additive_score ex_model [0, 1] [1, 0], additive_score ex_model [0, 1] [1, 0]]]\<rparr> \<and>
   scoringAdditive ex_model (unsqueeze1 ex_query) ex_keys1 \<noteq>
     Inr \<lparr>dim0 = 2, dim1 = 1, dim2 = 1,
          vals3 = [[additive_score ex_model [1, 0] [0, 0]], [additive_score ex_model [0, 1] [1, 0]]]\<rparr>"
  using wf_ex_model wf_ex_tensors
  by (simp add: scoringAdditive_def bindE_def linear3_def repeat1_def unsqueeze1_def tanh3_def
      add3_def bdim_def expand_def additive_score_def linear_vec_def dot_def ex_model_def
      ex_query_def ex_keys1_def numeral_2_eq_2)

text \<open>
  C3, as amended.  For every model built by \<open>__init__\<close> and every call of \<open>forward\<close> on
  \<open>B\<close> queries and \<open>B\<close> sequences of \<open>N\<close> candidates of matching dimensions, with \<open>N\<close> the
  model's \<open>num_inputs\<close>, the call returns exactly \<open>N\<close> scores per batch item (\<open>B * N\<close>
  numbers), in a tensor of shape \<open>(B, N)\<close> when neither \<open>B\<close> nor \<open>N\<close> is 1.
\<close>

theorem forward_score_count:
  assumes wf: "wf_model m" and q: "wf2 query" and k: "wf3 x"
    and dq: "ncols query = input_dim m" and dk: "dim2 x = input_dim m"
    and bb: "nrows query = dim0 x"
    and nn: "dim1 x = num_inputs m"
  shows "\<exists>t. forward m x query = Inr t \<and> length (elems t) = dim0 x * dim1 x \<and>
             (dim0 x \<noteq> 1 \<and> dim1 x \<noteq> 1 \<longrightarrow> shape t = [dim0 x, dim1 x])"
proof -
  let ?rows = "map2 (\<lambda>q ks. map (additive_score m q) ks) (vals2 query) (vals3 x)"
  have sc: "scoringAdditive m (unsqueeze1 query) x =
           Inr \<lparr>dim0 = dim0 x, dim1 = dim1 x, dim2 = 1, vals3 = ?rows\<rparr>"
    using nn by (intro scoring_formula_aux[OF wf q k dq dk bb]) simp
  have lr: "length ?rows = dim0 x"
    using q k bb by (simp add: wf2_len wf3_len)
  have l1: "\<And>r. r \<in> set ?rows \<Longrightarrow> length r = dim1 x"
    using k by (auto dest!: set_zip_rightD simp: wf3_rowD)
  have l2: "\<And>v. v \<in> set (concat ?rows) \<Longrightarrow> length v = 1"
    using wf by (auto simp: length_additive_score)
  have "length (concat (concat ?rows)) = length (concat ?rows) * 1"
    by (rule length_concat_const) (rule l2)
  also have "length (concat ?rows) = length ?rows * dim1 x"
    by (rule length_concat_const) (rule l1)
  finally have len: "length (concat (concat ?rows)) = dim0 x * dim1 x"
    using lr by simp
  show ?thesis
    using len by (simp add: forward_def sc bindE_def squeeze_def)
qed

theorem forward_score_count_witness:
  "wf_model ex_model \<and> wf2 ex_query \<and> wf3 ex_keys \<and> dim1 ex_keys = num_inputs ex_model \<and>
   (\<exists>t. forward ex_model ex_keys ex_query = Inr t \<and> length (elems t) = 4 \<and> shape t = [2, 2])"
  using forward_score_count[of ex_model ex_query ex_keys] wf_ex_model wf_ex_tensors
  by (simp add: ex_model_def ex_query_def ex_keys_def)

text \<open>
  C3 as stated fails: a model built for two inputs, called on three candidates per item,
  returns no score vector at all.
\<close>

theorem forward_score_count_counterexample:
  "num_inputs ex_model = 2 \<and> dim1 ex_keys3 = 3 \<and>
   forward ex_model ex_keys3 ex_query = Inl RuntimeError"
  by (simp add: forward_def scoringAdditive_def bindE_def linear3_def repeat1_def unsqueeze1_def
      tanh3_def add3_def bdim_def ex_model_def ex_query_def ex_keys3_def)

text \<open>
  C4.  For every model, every batch of queries, every well-formed batch of candidate
  sequences and every permutation \<open>p\<close> of the candidate positions, scoring the reordered
  candidates gives the scores of the original candidates reordered in the same way; when
  the original call fails, so does the other, with the same error.
\<close>

theorem scoringAdditive_permutation:
  assumes k: "wf3 keys" and p: "permutes_upto (dim1 keys) p"
  shows "scoringAdditive m (unsqueeze1 query) (permute1 p keys) =
         map_sum id (permute1 p) (scoringAdditive m (unsqueeze1 query) keys)"
  using batch_scores_reorder[OF wf3_rowD[OF k] p]
  by (auto simp: scoring_closed permute1_dims permute1_def split: option.splits)

theorem scoringAdditive_permutation_witness:
  "wf3 ex_keys \<and> permutes_upto (dim1 ex_keys) swap01 \<and>
   permute1 swap01 ex_keys =
     \<lparr>dim0 = 2, dim1 = 2, dim2 = 2, vals3 = [[[1, 1], [0, 0]], [[0, 0], [1, 0]]]\<rparr> \<and>
   scoringAdditive ex_model (unsqueeze1 ex_query) (permute1 swap01 ex_keys) =
     map_sum id (permute1 swap01) (scoringAdditive ex_model (unsqueeze1 ex_query) ex_keys)"
  using scoringAdditive_permutation[of ex_keys swap01 ex_model ex_query] wf_ex_tensors
    permutes_swap01
  by (simp add: ex_keys_def permute1_def reorder_def swap01_def upt_rec)

text \<open>
  C7, as amended.  For every model built by \<open>__init__\<close>, \<open>forward\<close> fails with torch's
  shape error when the queries or the candidates do not have length \<open>input_dim\<close>, and
  when the candidate sequences are empty and the model was built for two inputs or more.
\<close>

theorem forward_shape_error:
  assumes "ncols query \<noteq> input_dim m \<or> dim2 x \<noteq> input_dim m \<or> (dim1 x = 0 \<and> 2 \<le> num_inputs m)"
    and "wf_model m"
  shows "forward m x query = Inl RuntimeError"
  using assms
  by (auto simp: scoring_closed forward_def bindE_def wf_model_def bdim_def split: option.splits)

theorem forward_shape_error_witness:
  "wf_model ex_model \<and> dim2 ex_keys_wide \<noteq> input_dim ex_model \<and>
   forward ex_model ex_keys_wide ex_query = Inl RuntimeError \<and>
   dim1 ex_keys0 = 0 \<and> 2 \<le> num_inputs ex_model \<and>
   forward ex_model ex_keys0 ex_query = Inl RuntimeError"
  using forward_shape_error[of ex_query ex_model ex_keys_wide]
    forward_shape_error[of ex_query ex_model ex_keys0] wf_ex_model
  by (simp add: ex_model_def ex_query_def ex_keys_wide_def ex_keys0_def)

text \<open>
  C7 as stated fails: a model built for one input, called on empty candidate sequences,
  returns an (empty) score tensor.
\<close>

theorem forward_shape_error_counterexample:
  "wf_model ex_model1 \<and> wf3 ex_keys0 \<and> dim1 ex_keys0 = 0 \<and>
   forward ex_model1 ex_keys0 ex_query = Inr \<lparr>shape = [2, 0], elems = []\<rparr>"
  using wf_ex_model wf_ex_tensors
  by (simp add: forward_def scoringAdditive_def bindE_def linear3_def repeat1_def unsqueeze1_def
      tanh3_def add3_def bdim_def expand_def squeeze_def ex_model_def ex_model1_def ex_query_def
      ex_keys0_def)

text \<open>
  C10.  The scorer tiles the query \<open>num_inputs\<close> times, whatever the number of candidates
  it is given.  For every model built by \<open>__init__\<close> and inputs of matching dimensions:
  when the candidate count equals \<open>num_inputs\<close>, or one of the two is 1, the sum
  broadcasts and the scorer returns \<open>num_inputs\<close> scores per item (the candidate count
  when \<open>num_inputs = 1\<close>); for every other candidate count \<open>scoringAdditive\<close> and
  \<open>forward\<close> fail with torch's shape error.
\<close>

theorem scoringAdditive_tiles_num_inputs:
  assumes wf: "wf_model m" and q: "wf2 query" and k: "wf3 keys"
    and dq: "ncols query = input_dim m" and dk: "dim2 keys = input_dim m"
    and bb: "nrows query = dim0 keys"
  shows "(if dim1 keys = num_inputs m \<or> dim1 keys = 1 \<or> num_inputs m = 1
          then \<exists>t. scoringAdditive m (unsqueeze1 query) keys = Inr t \<and> dim0 t = dim0 keys \<and>
                   dim1 t = (if num_inputs m = 1 then dim1 keys else num_inputs m) \<and> dim2 t = 1
          else scoringAdditive m (unsqueeze1 query) keys = Inl RuntimeError \<and>
               forward m keys query = Inl RuntimeError)"
  using wf dq dk bb
  by (auto simp: scoring_closed forward_def bindE_def wf_model_def bdim_def)

theorem scoringAdditive_tiles_num_inputs_witness:
  "wf_model ex_model \<and> wf2 ex_query \<and> wf3 ex_keys1 \<and> wf3 ex_keys3 \<and>
   (\<exists>t. scoringAdditive ex_model (unsqueeze1 ex_query) ex_keys1 = Inr t \<and>
        dim0 t = 2 \<and> dim1 t = 2 \<and> dim2 t = 1) \<and>
   scoringAdditive ex_model (unsqueeze1 ex_query) ex_keys3 = Inl RuntimeError \<and>
   forward ex_model ex_keys3 ex_query = Inl RuntimeError"
  using scoringAdditive_tiles_num_inputs[of ex_model ex_query ex_keys1]
    scoringAdditive_tiles_num_inputs[of ex_model ex_query ex_keys3] wf_ex_model wf_ex_tensors
  by (simp add: ex_model_def ex_query_def ex_keys1_def ex_keys3_def)

section \<open>Binding and mapping\<close>

lemma bindD_returnD [simp]: "bindD (returnD v) f = f v"
  by (simp add: bindD_def returnD_def case_prod_unfold)

lemma bindD_raiseD [simp]: "bindD (raiseD e) f = raiseD e"
  by (simp add: bindD_def raiseD_def)

lemma bindD_liftE: "bindD (liftE r) f = (case r of Inl e \<Rightarrow> raiseD e | Inr v \<Rightarrow> f v)"
  by (simp add: bindD_def liftE_def raiseD_def case_prod_unfold split: sum.splits)

lemma liftE_Inr [simp]: "liftE (Inr v) = returnD v"
  by (simp add: liftE_def returnD_def)

lemma liftE_Inl [simp]: "liftE (Inl e) = raiseD e"
  by (simp add: liftE_def raiseD_def)

lemma mapD_returnD [simp]: "mapD f (returnD v) = returnD (f v)"
  by (simp add: mapD_def returnD_def)

lemma mapD_raiseD [simp]: "mapD f (raiseD e) = raiseD e"
  by (simp add: mapD_def raiseD_def)

lemma mapD_bindD: "mapD f (bindD d g) = bindD d (\<lambda>v. mapD f (g v))"
  by (induction d) (auto simp: mapD_def bindD_def split: sum.splits)

lemma bindD_mapD: "bindD (mapD f d) g = bindD d (\<lambda>v. g (f v))"
  by (induction d) (auto simp: mapD_def bindD_def split: sum.splits)

lemma mapD_mapD: "mapD f (mapD g d) = mapD (\<lambda>v. f (g v)) d"
  by (induction d) (auto simp: mapD_def split: sum.splits)

lemma bindD_as_mapD: "bindD d (\<lambda>v. returnD (f v)) = mapD f d"
  by (induction d) (auto simp: mapD_def bindD_def returnD_def split: sum.splits)

lemma mapD_cong: "(\<And>v. Inr v \<in> outcomes d \<Longrightarrow> f v = g v) \<Longrightarrow> mapD f d = mapD g d"
  by (induction d) (auto simp: mapD_def outcomes_def split: sum.splits)

lemma mapD_id: "mapD (\<lambda>v. v) d = d"
  by (induction d) (auto simp: mapD_def split: sum.splits)

section \<open>Laws of distributions\<close>

lemma place_draw_from:
  "place ds c k j =
     (if j = k then draw_from ds ((c + 1) mod 10)
      else bindD (choice (others ((c + 1) mod 10))) (draw_from ds))"
  by (simp add: place_def draw_from_def[abs_def] others_def)

lemma snd_place_traced: "mapD snd (place_traced ds c k j) = place ds c k j"
  by (simp add: place_draw_from place_traced_def mapD_mapD mapD_id mapD_bindD)

lemma fst_fill_traced: "mapD fst (fill_traced ds c k js inputs) = fill ds c k js inputs"
proof (induction js arbitrary: inputs)
  case Nil
  show ?case by simp
next
  case (Cons j js)
  have "mapD fst (fill_traced ds c k (j # js) inputs) =
        bindD (place_traced ds c k j) (\<lambda>v. fill ds c k js (inputs[j := snd v]))"
    by (simp add: mapD_bindD case_prod_unfold mapD_mapD Cons.IH)
  also have "\<dots> = bindD (mapD snd (place_traced ds c k j)) (\<lambda>row. fill ds c k js (inputs[j := row]))"
    by (simp add: bindD_mapD)
  finally show ?case by (simp add: snd_place_traced)
qed

lemma fst_getitem_traced: "mapD fst (getitem_traced ds idx) = getitem ds idx"
  by (simp add: getitem_traced_def getitem_def mapD_bindD case_prod_unfold mapD_mapD
      fst_fill_traced[symmetric] bindD_as_mapD)

lemma outcomes_returnD [simp]: "outcomes (returnD v) = {Inr v}"
  by (simp add: outcomes_def returnD_def)

lemma outcomes_raiseD [simp]: "outcomes (raiseD e) = {Inl e}"
  by (simp add: outcomes_def raiseD_def)

lemma outcomes_bindD:
  "outcomes (bindD d f) =
     {Inl e |e. Inl e \<in> outcomes d} \<union> (\<Union>v \<in> {v. Inr v \<in> outcomes d}. outcomes (f v))"
proof (induction d)
  case Nil
  show ?case by (simp add: outcomes_def bindD_def)
next
  case (Cons a d)
  obtain r p where a: "a = (r, p)" by (cases a)
  have step: "outcomes (bindD (a # d) f) =
        (case r of Inl e \<Rightarrow> {Inl e} | Inr v \<Rightarrow> outcomes (f v)) \<union> outcomes (bindD d f)"
    by (auto simp: a outcomes_def bindD_def image_Un image_image split: sum.splits) force+
  show ?case
    unfolding step Cons.IH by (cases r) (auto simp: a outcomes_def)
qed

lemma outcomes_mapD: "outcomes (mapD f d) = (\<lambda>r. case r of Inl e \<Rightarrow> Inl e | Inr v \<Rightarrow> Inr (f v)) ` outcomes d"
  by (auto simp: outcomes_def mapD_def image_image case_prod_unfold)

lemma outcomes_randint:
  "outcomes (randint low high) = (if high \<le> low then {Inl ValueError} else Inr ` {low..<high})"
  by (auto simp: randint_def uniform_def outcomes_def raiseD_def image_image)

lemma outcomes_choice:
  "outcomes (choice a) = (if a = [] then {Inl ValueError} else Inr ` set a)"
  by (auto simp: choice_def uniform_def outcomes_def raiseD_def image_image)

lemma prob_Nil [simp]: "prob [] P = 0"
  by (simp add: prob_def)

lemma prob_Cons: "prob ((r, p) # d) P = (if P r then p else 0) + prob d P"
  by (simp add: prob_def)

lemma prob_append: "prob (d1 @ d2) P = prob d1 P + prob d2 P"
  by (simp add: prob_def)

lemma prob_scale: "prob (map (\<lambda>(s, q). (s, p * q)) d) P = p * prob d P"
  by (induction d) (auto simp: prob_def algebra_simps)

lemma prob_cong: "(\<And>r. r \<in> outcomes d \<Longrightarrow> P r = Q r) \<Longrightarrow> prob d P = prob d Q"
  by (induction d) (auto simp: prob_def outcomes_def)

lemma prob_False: "(\<And>r. r \<in> outcomes d \<Longrightarrow> \<not> P r) \<Longrightarrow> prob d P = 0"
  by (induction d) (auto simp: prob_def outcomes_def)

lemma prob_returnD: "prob (returnD v) P = (if P (Inr v) then 1 else 0)"
  by (simp add: prob_def returnD_def)

lemma prob_raiseD: "prob (raiseD e) P = (if P (Inl e) then 1 else 0)"
  by (simp add: prob_def raiseD_def)

lemma prob_mapD: "prob (mapD f d) P = prob d (\<lambda>r. P (case r of Inl e \<Rightarrow> Inl e | Inr v \<Rightarrow> Inr (f v)))"
  by (induction d) (auto simp: prob_def mapD_def)

lemma prob_bindD_split:
  assumes err: "\<And>e. \<not> P (Inl e)"
    and cont: "\<And>v. Inr v \<in> outcomes d \<Longrightarrow> prob (f v) P = (if Q v then V else 0)"
  shows "prob (bindD d f) P = prob d (\<lambda>r. case r of Inl e \<Rightarrow> False | Inr v \<Rightarrow> Q v) * V"
  using cont
proof (induction d)
  case Nil
  show ?case by (simp add: bindD_def)
next
  case (Cons a d)
  obtain r p where a: "a = (r, p)" by (cases a)
  have bind: "bindD ((r, p) # d) f =
      (case r of Inl e \<Rightarrow> [(Inl e, p)] | Inr v \<Rightarrow> map (\<lambda>(s, q). (s, p * q)) (f v)) @ bindD d f"
    by (simp add: bindD_def)
  have ih: "prob (bindD d f) P = prob d (\<lambda>r. case r of Inl e \<Rightarrow> False | Inr v \<Rightarrow> Q v) * V"
    by (rule Cons.IH) (simp add: Cons.prems outcomes_def)
  show ?case
  proof (cases r)
    case (Inl e)
    show ?thesis
      unfolding a bind by (simp add: Inl prob_append prob_Cons err ih)
  next
    case (Inr v)
    have "prob (f v) P = (if Q v then V else 0)"
      by (rule Cons.prems) (simp add: outcomes_def a Inr)
    then have "prob (map (\<lambda>(s, q). (s, p * q)) (f v)) P = (if Q v then p * V else 0)"
      by (simp add: prob_scale)
    then show ?thesis
      unfolding a bind by (simp add: Inr prob_append prob_Cons ih distrib_right)
  qed
qed

lemma prob_uniform_Inr:
  assumes "xs \<noteq> []"
  shows "prob (uniform (map Inr xs)) (\<lambda>r. case r of Inl e \<Rightarrow> False | Inr v \<Rightarrow> Q v) =
         real (length (filter Q xs)) / real (length xs)"
proof -
  have aux: "prob (map (\<lambda>v. (Inr v, w)) ys) (\<lambda>r. case r of Inl e \<Rightarrow> False | Inr v \<Rightarrow> Q v) =
        real (length (filter Q ys)) * w" for w :: real and ys :: "'a list"
    by (induction ys) (auto simp: prob_Cons algebra_simps)
  show ?thesis
    using aux[of "1 / real (length xs)" xs] by (simp add: uniform_def o_def)
qed

lemma prob_randint:
  "prob (randint 0 n) (\<lambda>r. case r of Inl e \<Rightarrow> False | Inr v \<Rightarrow> v = k) = (if k < n then 1 / real n else 0)"
proof (cases "n = 0")
  case True
  then show ?thesis by (simp add: randint_def prob_raiseD)
next
  case False
  have "filter (\<lambda>v. v = k) [0..<n] = (if k < n then [k] else [])"
    by (induction n) auto
  then show ?thesis
    using False by (simp add: randint_def prob_uniform_Inr)
qed

lemma prob_randint_all:
  "prob (randint 0 n) (\<lambda>r. case r of Inl e \<Rightarrow> False | Inr v \<Rightarrow> True) = (if n = 0 then 0 else 1)"
  by (simp add: randint_def prob_raiseD prob_uniform_Inr)

lemma prob_choice:
  "distinct a \<Longrightarrow> prob (choice a) (\<lambda>r. case r of Inl e \<Rightarrow> False | Inr v \<Rightarrow> v = k) =
     (if k \<in> set a then 1 / real (length a) else 0)"
proof (cases "a = []")
  case True
  then show ?thesis by (simp add: choice_def prob_raiseD)
next
  case False
  assume "distinct a"
  then have "length (filter (\<lambda>v. v = k) a) = (if k \<in> set a then 1 else 0)"
    by (induction a) auto
  then show ?thesis
    using False by (simp add: choice_def prob_uniform_Inr)
qed

lemma prob_choice_all:
  "prob (choice a) (\<lambda>r. case r of Inl e \<Rightarrow> False | Inr v \<Rightarrow> True) = (if a = [] then 0 else 1)"
  by (simp add: choice_def prob_raiseD prob_uniform_Inr)

section \<open>Construction and draws of the dataset\<close>

lemma fold_upd:
  "fold (\<lambda>label d. d(label \<mapsto> g label)) ls m l = (if l \<in> set ls then Some (g l) else m l)"
  by (induction ls arbitrary: m) auto

lemma data_init:
  "data (dataset_init n corpus) l = (if l < 10 then Some (items_of corpus l) else None)"
  by (simp add: dataset_init_def fold_upd items_of_def del: upt_rec_numeral)

lemma pool_init: "pool_of (dataset_init n corpus) l = (if l < 10 then items_of corpus l else [])"
  by (simp add: pool_of_def data_init)

lemma range10: "[0..<10] = [0, 1, 2, 3, 4, 5, 6, 7, 8, 9]"
  by code_simp

lemma others_props:
  assumes "t < 10"
  shows "length (others t) = 9" "distinct (others t)" "set (others t) = {l. l < 10 \<and> l \<noteq> t}"
proof -
  have "t = 0 \<or> t = 1 \<or> t = 2 \<or> t = 3 \<or> t = 4 \<or> t = 5 \<or> t = 6 \<or> t = 7 \<or> t = 8 \<or> t = 9"
    using assms by arith
  then show "length (others t) = 9" "distinct (others t)"
    by (auto simp: others_def)
  have "set (others t) = set (filter (\<lambda>n. n \<noteq> t) [0..<10])"
    by (simp only: range10 others_def)
  then show "set (others t) = {l. l < 10 \<and> l \<noteq> t}"
    by auto
qed

lemma map_nth_fun: "map (\<lambda>i. f (xs ! i)) [0..<length xs] = map f xs"
  by (rule nth_equalityI) simp_all

lemma bindD_weighted:
  "bindD (map (\<lambda>v. (Inr v, w)) ys) (\<lambda>i. liftE (g i)) = map (\<lambda>v. (g v, w)) ys"
  by (induction ys) (auto simp: bindD_def liftE_def)

lemma py_index_nat: "i < length xs \<Longrightarrow> py_index xs (int i) = Inr (xs ! i)"
  by (simp add: py_index_def)

lemma randint_index: "bindD (randint 0 (length xs)) (\<lambda>idx. liftE (py_index xs (int idx))) = choice xs"
proof (cases "xs = []")
  case True
  then show ?thesis by (simp add: randint_def choice_def)
next
  case False
  let ?w = "1 / real (length xs)"
  have "bindD (randint 0 (length xs)) (\<lambda>idx. liftE (py_index xs (int idx))) =
        map (\<lambda>i. (py_index xs (int i), ?w)) [0..<length xs]"
    using False by (simp add: randint_def uniform_def o_def bindD_weighted)
  also have "\<dots> = map (\<lambda>i. (Inr (xs ! i), ?w)) [0..<length xs]"
    by (simp add: py_index_nat)
  also have "\<dots> = map (\<lambda>v. (Inr v, ?w)) xs"
    by (rule map_nth_fun)
  finally show ?thesis
    using False by (simp add: choice_def uniform_def o_def)
qed

lemma draw_from_init:
  "l < 10 \<Longrightarrow> draw_from (dataset_init n corpus) l = choice (items_of corpus l)"
  by (simp add: draw_from_def data_init dict_get_def randint_index)

section \<open>Probabilities of one position\<close>

lemma returns_simps [simp]: "returns Q (Inl e) = False" "returns Q (Inr v) = Q v"
  by (simp_all add: returns_def)

lemma prob_mapD_returns: "prob (mapD f d) (returns Q) = prob d (returns (\<lambda>v. Q (f v)))"
  unfolding prob_mapD by (rule prob_cong) (simp add: returns_def split: sum.splits)

lemma prob_returns_const: "prob d (returns (\<lambda>v. b)) = (if b then prob d succeeded else 0)"
proof (cases b)
  case True
  have "prob d (returns (\<lambda>v. True)) = prob d succeeded"
    by (rule prob_cong) (simp add: returns_def succeeded_def)
  then show ?thesis using True by simp
next
  case False
  have "prob d (returns (\<lambda>v. False)) = 0"
    by (rule prob_False) (simp add: returns_def split: sum.splits)
  then show ?thesis using False by simp
qed

lemma prob_mapD_ok: "prob (mapD f d) succeeded = prob d succeeded"
  unfolding prob_mapD by (rule prob_cong) (simp add: succeeded_def split: sum.splits)

lemma prob_bindD_ok:
  assumes "\<And>v. Inr v \<in> outcomes d \<Longrightarrow> prob (f v) succeeded = 1"
  shows "prob (bindD d f) succeeded = prob d succeeded"
  using prob_bindD_split[of succeeded d f "\<lambda>v. True" 1] assms
  by (simp add: succeeded_def[abs_def])

lemma prob_bindD_returns:
  assumes "\<And>v. Inr v \<in> outcomes d \<Longrightarrow> prob (f v) (returns R) = (if Q v then V else 0)"
  shows "prob (bindD d f) (returns R) = prob d (returns Q) * V"
  using prob_bindD_split[of "returns R" d f Q V] assms
  by (simp add: returns_def[abs_def])

lemma prob_randint_returns:
  "prob (randint 0 n) (returns (\<lambda>v. v = k)) = (if k < n then 1 / real n else 0)"
  using prob_randint[of n k] by (simp add: returns_def[abs_def])

lemma prob_choice_returns:
  "distinct a \<Longrightarrow> prob (choice a) (returns (\<lambda>v. v = k)) = (if k \<in> set a then 1 / real (length a) else 0)"
  using prob_choice[of a k] by (simp add: returns_def[abs_def])

lemma prob_choice_ok: "prob (choice a) succeeded = (if a = [] then 0 else 1)"
  using prob_choice_all[of a] by (simp add: succeeded_def[abs_def])

lemma prob_randint_ok: "prob (randint 0 n) succeeded = (if n = 0 then 0 else 1)"
  using prob_randint_all[of n] by (simp add: succeeded_def[abs_def])

lemma mod10: "(c + 1) mod 10 < (10::nat)"
  by simp

lemma place_traced_class_prob:
  assumes ne: "\<And>l. l < 10 \<Longrightarrow> items_of corpus l \<noteq> []"
  shows "prob (place_traced (dataset_init n corpus) c k j) (returns (\<lambda>v. fst v = d)) =
         (if class_ok c k j d then (if j = k then 1 else 1 / 9) else 0)"
proof (cases "j = k")
  case True
  then show ?thesis
    by (simp add: place_traced_def draw_from_init prob_mapD_returns prob_returns_const
        prob_choice_ok ne class_ok_def)
next
  case False
  let ?t = "(c + 1) mod 10"
  have cont: "prob (mapD (Pair cd) (draw_from (dataset_init n corpus) cd)) (returns (\<lambda>v. fst v = d)) =
              (if cd = d then 1 else 0)"
    if "Inr cd \<in> outcomes (choice (others ?t))" for cd
  proof -
    have "cd \<in> set (others ?t)"
      using that by (auto simp: outcomes_choice split: if_splits)
    then have "cd < 10"
      using others_props(3)[OF mod10, of c] by auto
    then show ?thesis
      by (simp add: draw_from_init prob_mapD_returns prob_returns_const prob_choice_ok ne)
  qed
  have "prob (place_traced (dataset_init n corpus) c k j) (returns (\<lambda>v. fst v = d)) =
        prob (choice (others ?t)) (returns (\<lambda>v. v = d)) * 1"
    unfolding place_traced_def using False
    by (simp only: if_False) (rule prob_bindD_returns, rule cont)
  then show ?thesis
    using False others_props[OF mod10, of c]
    by (auto simp: prob_choice_returns class_ok_def)
qed

section \<open>Probabilities of a sample\<close>

lemma place_ok:
  assumes ne: "\<And>l. l < 10 \<Longrightarrow> items_of corpus l \<noteq> []"
  shows "prob (place (dataset_init n corpus) c k j) succeeded = 1"
proof (cases "j = k")
  case True
  then show ?thesis
    by (simp add: place_draw_from draw_from_init prob_choice_ok ne)
next
  case False
  have cont: "prob (draw_from (dataset_init n corpus) cd) succeeded = 1"
    if "Inr cd \<in> outcomes (choice (others ((c + 1) mod 10)))" for cd
  proof -
    have "cd \<in> set (others ((c + 1) mod 10))"
      using that by (auto simp: outcomes_choice split: if_splits)
    then have "cd < 10"
      using others_props(3)[OF mod10, of c] by auto
    then show ?thesis
      by (simp add: draw_from_init prob_choice_ok ne)
  qed
  have "others ((c + 1) mod 10) \<noteq> []"
    using others_props(1)[OF mod10, of c] by auto
  then have "prob (choice (others ((c + 1) mod 10))) succeeded = 1"
    by (simp add: prob_choice_ok)
  moreover have "prob (place (dataset_init n corpus) c k j) succeeded = prob (choice (others ((c + 1) mod 10))) succeeded"
    unfolding place_draw_from using False
    by (simp only: if_False) (rule prob_bindD_ok, rule cont)
  ultimately show ?thesis by simp
qed

lemma fill_ok:
  assumes ne: "\<And>l. l < 10 \<Longrightarrow> items_of corpus l \<noteq> []"
  shows "prob (fill (dataset_init n corpus) c k js inputs) succeeded = 1"
proof (induction js arbitrary: inputs)
  case Nil
  show ?case by (simp add: prob_returnD succeeded_def)
next
  case (Cons j js)
  have "prob (fill (dataset_init n corpus) c k (j # js) inputs) succeeded =
        prob (place (dataset_init n corpus) c k j) succeeded"
    unfolding fill.simps by (rule prob_bindD_ok) (rule Cons.IH)
  then show ?case by (simp add: place_ok[OF ne])
qed

lemma fill_traced_class_prob:
  assumes ne: "\<And>l. l < 10 \<Longrightarrow> items_of corpus l \<noteq> []"
    and cs: "list_all2 (class_ok c k) js cs"
  shows "prob (fill_traced (dataset_init n corpus) c k js inputs) (returns (\<lambda>v. snd v = cs)) =
         (1 / 9) ^ length (filter (\<lambda>j. j \<noteq> k) js)"
  using cs
proof (induction arbitrary: inputs rule: list_all2_induct)
  case Nil
  show ?case by (simp add: prob_returnD)
next
  case (Cons j js d cs)
  let ?ds = "dataset_init n corpus"
  let ?V = "(1 / 9 :: real) ^ length (filter (\<lambda>j. j \<noteq> k) js)"
  have cont: "prob (case v of (cls, row) \<Rightarrow>
                 mapD (\<lambda>(inp, clss). (inp, cls # clss)) (fill_traced ?ds c k js (inputs[j := row])))
               (returns (\<lambda>v. snd v = d # cs)) = (if fst v = d then ?V else 0)" for v
  proof -
    obtain cls row where v: "v = (cls, row)" by (cases v)
    have "prob (mapD (\<lambda>(inp, clss). (inp, cls # clss)) (fill_traced ?ds c k js (inputs[j := row])))
               (returns (\<lambda>v. snd v = d # cs)) =
          prob (fill_traced ?ds c k js (inputs[j := row])) (returns (\<lambda>w. cls = d \<and> snd w = cs))"
      by (simp add: prob_mapD_returns case_prod_unfold)
    also have "\<dots> = (if cls = d then ?V else 0)"
    proof (cases "cls = d")
      case True
      then show ?thesis by (simp add: Cons.IH)
    next
      case False
      then show ?thesis by (simp add: prob_returns_const)
    qed
    finally show ?thesis by (simp add: v)
  qed
  have "prob (fill_traced ?ds c k (j # js) inputs) (returns (\<lambda>v. snd v = d # cs)) =
        prob (place_traced ?ds c k j) (returns (\<lambda>v. fst v = d)) * ?V"
    unfolding fill_traced.simps by (rule prob_bindD_returns) (rule cont)
  then show ?case
    using Cons.hyps(1) by (simp add: place_traced_class_prob[OF ne])
qed

lemma upt_class_ok:
  "list_all2 (class_ok c k) [0..<n] cs \<longleftrightarrow> length cs = n \<and> (\<forall>j<n. class_ok c k j (cs ! j))"
  by (auto simp: list_all2_conv_all_nth)

lemma count_others: "k < n \<Longrightarrow> length (filter (\<lambda>j. j \<noteq> k) [0..<n]) = n - 1"
proof (induction n)
  case 0
  then show ?case by simp
next
  case (Suc n)
  show ?case
  proof (cases "k < n")
    case True
    then show ?thesis using Suc.IH by simp
  next
    case False
    then have "k = n" using Suc.prems by simp
    then show ?thesis by simp
  qed
qed

lemma getitem_position_prob:
  assumes idx: "py_index corpus idx = Inr (img, c)"
    and ne: "\<And>l. l < 10 \<Longrightarrow> items_of corpus l \<noteq> []"
    and k: "k < n"
  shows "prob (getitem (dataset_init n corpus) idx) (returns (\<lambda>s. sample_y s = k)) = 1 / real n"
proof -
  let ?ds = "dataset_init n corpus"
  let ?f = "\<lambda>cp. mapD (\<lambda>inputs. \<lparr>sample_x = inputs, sample_query = normalise img, sample_y = cp\<rparr>)
                (fill ?ds c cp [0..<n] (replicate n (replicate 784 0)))"
  have g: "getitem ?ds idx = bindD (randint 0 n) ?f"
    by (simp add: getitem_def dataset_init_def idx bindD_as_mapD)
  have cont: "prob (?f cp) (returns (\<lambda>s. sample_y s = k)) = (if cp = k then 1 else 0)" for cp
    by (simp add: prob_mapD_returns prob_returns_const fill_ok[OF ne])
  have "prob (getitem ?ds idx) (returns (\<lambda>s. sample_y s = k)) =
        prob (randint 0 n) (returns (\<lambda>cp. cp = k)) * 1"
    unfolding g by (rule prob_bindD_returns) (rule cont)
  then show ?thesis
    using k by (simp add: prob_randint_returns)
qed

lemma getitem_classes_prob:
  assumes idx: "py_index corpus idx = Inr (img, c)"
    and ne: "\<And>l. l < 10 \<Longrightarrow> items_of corpus l \<noteq> []"
    and k: "k < n"
    and cs: "length cs = n" "\<And>j. j < n \<Longrightarrow> class_ok c k j (cs ! j)"
  shows "prob (getitem_traced (dataset_init n corpus) idx)
           (returns (\<lambda>v. sample_y (fst v) = k \<and> snd v = cs)) = 1 / real n * (1 / 9) ^ (n - 1)"
proof -
  let ?ds = "dataset_init n corpus"
  let ?f = "\<lambda>cp. mapD (\<lambda>(inputs, clss).
               (\<lparr>sample_x = inputs, sample_query = normalise img, sample_y = cp\<rparr>, clss))
                (fill_traced ?ds c cp [0..<n] (replicate n (replicate 784 0)))"
  have g: "getitem_traced ?ds idx = bindD (randint 0 n) ?f"
    by (simp add: getitem_traced_def dataset_init_def idx)
  have all: "list_all2 (class_ok c k) [0..<n] cs"
    using cs by (simp add: upt_class_ok)
  have cont: "prob (?f cp) (returns (\<lambda>v. sample_y (fst v) = k \<and> snd v = cs)) =
              (if cp = k then (1 / 9) ^ (n - 1) else 0)" for cp
  proof (cases "cp = k")
    case True
    have "prob (?f cp) (returns (\<lambda>v. sample_y (fst v) = k \<and> snd v = cs)) =
          prob (fill_traced ?ds c cp [0..<n] (replicate n (replicate 784 0))) (returns (\<lambda>v. snd v = cs))"
      using True by (simp add: prob_mapD_returns case_prod_unfold)
    then show ?thesis
      using True k by (simp add: fill_traced_class_prob[OF ne all] count_others)
  next
    case False
    then show ?thesis
      by (simp add: prob_mapD_returns case_prod_unfold prob_returns_const)
  qed
  have "prob (getitem_traced ?ds idx) (returns (\<lambda>v. sample_y (fst v) = k \<and> snd v = cs)) =
        prob (randint 0 n) (returns (\<lambda>cp. cp = k)) * (1 / 9) ^ (n - 1)"
    unfolding g by (rule prob_bindD_returns) (rule cont)
  then show ?thesis
    using k by (simp add: prob_randint_returns)
qed

section \<open>Outcomes of a sample\<close>

lemma mass_bindD: "(\<And>v. mass (f v) = 1) \<Longrightarrow> mass (bindD d f) = mass d"
proof (induction d)
  case Nil
  show ?case by (simp add: bindD_def mass_def)
next
  case (Cons a d)
  obtain r p where a: "a = (r, p)" by (cases a)
  have scale: "mass (map (\<lambda>(s, q). (s, p * q)) e) = p * mass e" for e :: "('c \<times> real) list"
    by (induction e) (auto simp: algebra_simps mass_def)
  have app: "mass (e1 @ e2) = mass e1 + mass e2" for e1 e2 :: "('c \<times> real) list"
    by (simp add: mass_def)
  have "bindD (a # d) f =
      (case r of Inl e \<Rightarrow> [(Inl e, p)] | Inr v \<Rightarrow> map (\<lambda>(s, q). (s, p * q)) (f v)) @ bindD d f"
    by (simp add: bindD_def a)
  then have "mass (bindD (a # d) f) = p + mass (bindD d f)"
    by (cases r) (simp_all add: app scale Cons.prems, simp add: mass_def)
  then show ?case
    using Cons by (simp add: a mass_def)
qed

lemma mass_simps [simp]: "mass (returnD v) = 1" "mass (raiseD e) = 1" "mass (liftE r) = 1"
  by (simp_all add: mass_def returnD_def raiseD_def liftE_def)

lemma mass_uniform: "xs \<noteq> [] \<Longrightarrow> mass (uniform xs) = 1"
proof -
  have "sum_list (map snd (map (\<lambda>v. (v, w)) ys)) = real (length ys) * w" for w :: real and ys :: "'a list"
    by (induction ys) (auto simp: algebra_simps)
  then show "xs \<noteq> [] \<Longrightarrow> mass (uniform xs) = 1"
    by (simp add: mass_def uniform_def)
qed

lemma mass_randint [simp]: "mass (randint low high) = 1"
  by (simp add: randint_def mass_uniform)

lemma mass_choice [simp]: "mass (choice a) = 1"
  by (simp add: choice_def mass_uniform)

lemma mass_mapD [simp]: "mass (mapD f d) = mass d"
  by (induction d) (auto simp: mass_def mapD_def)

lemma prob_all: "(\<And>r. r \<in> outcomes d \<Longrightarrow> P r) \<Longrightarrow> prob d P = mass d"
  by (induction d) (auto simp: prob_def mass_def outcomes_def)

lemma mass_place [simp]: "mass (place ds c k j) = 1"
  by (simp add: place_def mass_bindD)

lemma mass_fill [simp]: "mass (fill ds c k js inputs) = 1"
  by (induction js arbitrary: inputs) (simp_all add: mass_bindD)

lemma mass_getitem: "mass (getitem ds idx) = 1"
  by (simp add: getitem_def mass_bindD case_prod_unfold)

lemma outcomes_draw_from:
  "l < 10 \<Longrightarrow> outcomes (draw_from (dataset_init n corpus) l) =
     (if items_of corpus l = [] then {Inl ValueError} else Inr ` set (items_of corpus l))"
  by (simp add: draw_from_init outcomes_choice)

lemma others_lt: "cd \<in> set (others ((c + 1) mod 10)) \<Longrightarrow> cd < 10 \<and> cd \<noteq> (c + 1) mod 10"
  using others_props(3)[OF mod10, of c] by auto

lemma place_traced_outcomes:
  assumes "Inr v \<in> outcomes (place_traced (dataset_init n corpus) c k j)"
  shows "class_ok c k j (fst v) \<and> snd v \<in> set (items_of corpus (fst v))"
proof (cases "j = k")
  case True
  then show ?thesis
    using assms
    by (auto simp: place_traced_def outcomes_mapD outcomes_draw_from class_ok_def
        split: if_splits sum.splits)
next
  case False
  then obtain cd where cd: "Inr cd \<in> outcomes (choice (others ((c + 1) mod 10)))"
    and v: "Inr v \<in> outcomes (mapD (Pair cd) (draw_from (dataset_init n corpus) cd))"
    using assms by (auto simp: place_traced_def outcomes_bindD)
  have "cd \<in> set (others ((c + 1) mod 10))"
    using cd by (auto simp: outcomes_choice split: if_splits)
  then have lt: "cd < 10" "cd \<noteq> (c + 1) mod 10"
    using others_lt by blast+
  show ?thesis
    using v False lt
    by (auto simp: outcomes_mapD outcomes_draw_from class_ok_def split: if_splits sum.splits)
qed

lemma fill_traced_outcomes:
  assumes "Inr (inp, cls) \<in> outcomes (fill_traced (dataset_init n corpus) c k js inputs)"
    and "distinct js" and "\<And>j. j \<in> set js \<Longrightarrow> j < length inputs"
  shows "length inp = length inputs \<and>
         list_all2 (\<lambda>j d. class_ok c k j d \<and> inp ! j \<in> set (items_of corpus d)) js cls \<and>
         (\<forall>j<length inputs. j \<notin> set js \<longrightarrow> inp ! j = inputs ! j)"
  using assms
proof (induction js arbitrary: inputs inp cls)
  case Nil
  then show ?case by simp
next
  case (Cons j js)
  let ?ds = "dataset_init n corpus"
  from Cons.prems(1) obtain v where v: "Inr v \<in> outcomes (place_traced ?ds c k j)"
    and rest: "Inr (inp, cls) \<in> outcomes (mapD (\<lambda>(inp, clss). (inp, fst v # clss))
                  (fill_traced ?ds c k js (inputs[j := snd v])))"
    by (auto simp: outcomes_bindD case_prod_unfold)
  from rest obtain clss where cls: "cls = fst v # clss"
    and tail: "Inr (inp, clss) \<in> outcomes (fill_traced ?ds c k js (inputs[j := snd v]))"
    by (auto simp: outcomes_mapD split: sum.splits)
  have ih: "length inp = length (inputs[j := snd v]) \<and>
         list_all2 (\<lambda>j d. class_ok c k j d \<and> inp ! j \<in> set (items_of corpus d)) js clss \<and>
         (\<forall>i<length (inputs[j := snd v]). i \<notin> set js \<longrightarrow> inp ! i = inputs[j := snd v] ! i)"
    using tail Cons.prems(2,3) by (intro Cons.IH) auto
  have j: "j < length inputs" "j \<notin> set js"
    using Cons.prems(2,3) by auto
  then have "inp ! j = snd v"
    using ih by simp
  then show ?case
    using ih place_traced_outcomes[OF v] j by (auto simp: cls)
qed

lemma getitem_traced_outcomes:
  assumes out: "Inr (s, cls) \<in> outcomes (getitem_traced (dataset_init n corpus) idx)"
    and idx: "py_index corpus idx = Inr (img, c)"
  shows "sample_y s < n \<and> length (sample_x s) = n \<and> length cls = n \<and> sample_query s = normalise img \<and>
         (\<forall>j<n. class_ok c (sample_y s) j (cls ! j) \<and> sample_x s ! j \<in> set (items_of corpus (cls ! j)))"
proof -
  let ?ds = "dataset_init n corpus"
  have g: "getitem_traced ?ds idx = bindD (randint 0 n) (\<lambda>cp. mapD (\<lambda>(inputs, clss).
               (\<lparr>sample_x = inputs, sample_query = normalise img, sample_y = cp\<rparr>, clss))
                (fill_traced ?ds c cp [0..<n] (replicate n (replicate 784 0))))"
    by (simp add: getitem_traced_def dataset_init_def idx)
  from out obtain cp inp where cp: "cp < n"
    and s: "s = \<lparr>sample_x = inp, sample_query = normalise img, sample_y = cp\<rparr>"
    and f: "Inr (inp, cls) \<in> outcomes (fill_traced ?ds c cp [0..<n] (replicate n (replicate 784 0)))"
    unfolding g
    by (auto simp: outcomes_bindD outcomes_randint outcomes_mapD split: if_splits sum.splits)
  have "length inp = n \<and>
         list_all2 (\<lambda>j d. class_ok c cp j d \<and> inp ! j \<in> set (items_of corpus d)) [0..<n] cls"
    using fill_traced_outcomes[OF f] by simp
  then show ?thesis
    using cp by (auto simp: s list_all2_conv_all_nth)
qed

section \<open>The claims about the dataset\<close>

lemma place_errors:
  assumes "Inl e \<in> outcomes (place (dataset_init n corpus) c k j)"
  shows "e = ValueError"
proof (cases "j = k")
  case True
  then show ?thesis
    using assms by (auto simp: place_draw_from outcomes_draw_from split: if_splits)
next
  case False
  then have "Inl e \<in> outcomes (choice (others ((c + 1) mod 10))) \<or>
             (\<exists>cd. Inr cd \<in> outcomes (choice (others ((c + 1) mod 10))) \<and>
                   Inl e \<in> outcomes (draw_from (dataset_init n corpus) cd))"
    using assms by (auto simp: place_draw_from outcomes_bindD)
  then show ?thesis
  proof
    assume "Inl e \<in> outcomes (choice (others ((c + 1) mod 10)))"
    then show ?thesis by (auto simp: outcomes_choice split: if_splits)
  next
    assume "\<exists>cd. Inr cd \<in> outcomes (choice (others ((c + 1) mod 10))) \<and>
                   Inl e \<in> outcomes (draw_from (dataset_init n corpus) cd)"
    then obtain cd where cd: "Inr cd \<in> outcomes (choice (others ((c + 1) mod 10)))"
      and e: "Inl e \<in> outcomes (draw_from (dataset_init n corpus) cd)"
      by blast
    have "cd \<in> set (others ((c + 1) mod 10))"
      using cd by (auto simp: outcomes_choice split: if_splits)
    then have "cd < 10" using others_lt by blast
    then show ?thesis
      using e by (auto simp: outcomes_draw_from split: if_splits)
  qed
qed

lemma place_target_empty:
  "items_of corpus ((c + 1) mod 10) = [] \<Longrightarrow>
   outcomes (place (dataset_init n corpus) c k k) = {Inl ValueError}"
  by (simp add: place_draw_from outcomes_draw_from)

lemma fill_target_empty:
  assumes "items_of corpus ((c + 1) mod 10) = []" and "k \<in> set js"
  shows "outcomes (fill (dataset_init n corpus) c k js inputs) \<subseteq> {Inl ValueError}"
  using assms(2)
proof (induction js arbitrary: inputs)
  case Nil
  then show ?case by simp
next
  case (Cons j js)
  show ?case
  proof (cases "j = k")
    case True
    then show ?thesis
      by (auto simp: outcomes_bindD place_target_empty[OF assms(1)])
  next
    case False
    then have "k \<in> set js" using Cons.prems by simp
    then have "\<And>inputs. outcomes (fill (dataset_init n corpus) c k js inputs) \<subseteq> {Inl ValueError}"
      by (rule Cons.IH)
    then show ?thesis
      by (auto simp: outcomes_bindD dest: place_errors)
  qed
qed

lemma mass_outcomes: "mass d = 1 \<Longrightarrow> outcomes d \<noteq> {}"
  by (auto simp: mass_def outcomes_def)

lemma getitem_empty_pool_aux:
  assumes idx: "py_index corpus idx = Inr (img, c)"
    and empty: "items_of corpus ((c + 1) mod 10) = []"
  shows "outcomes (getitem (dataset_init n corpus) idx) = {Inl ValueError} \<and>
         prob (getitem (dataset_init n corpus) idx) (\<lambda>r. r = Inl ValueError) = 1"
proof -
  let ?ds = "dataset_init n corpus"
  have g: "getitem ?ds idx = bindD (randint 0 n) (\<lambda>cp.
             mapD (\<lambda>inputs. \<lparr>sample_x = inputs, sample_query = normalise img, sample_y = cp\<rparr>)
                (fill ?ds c cp [0..<n] (replicate n (replicate 784 0))))"
    by (simp add: getitem_def dataset_init_def idx bindD_as_mapD)
  have sub: "outcomes (getitem ?ds idx) \<subseteq> {Inl ValueError}"
  proof
    fix r assume "r \<in> outcomes (getitem ?ds idx)"
    then consider "r = Inl ValueError" |
      cp where "cp < n" "r \<in> outcomes (mapD (\<lambda>inputs. \<lparr>sample_x = inputs, sample_query = normalise img, sample_y = cp\<rparr>)
                (fill ?ds c cp [0..<n] (replicate n (replicate 784 0))))"
      unfolding g by (auto simp: outcomes_bindD outcomes_randint split: if_splits)
    then show "r \<in> {Inl ValueError}"
    proof cases
      case 1
      then show ?thesis by simp
    next
      case 2
      have "outcomes (fill ?ds c cp [0..<n] (replicate n (replicate 784 0))) \<subseteq> {Inl ValueError}"
        using 2(1) by (intro fill_target_empty[OF empty]) simp
      then show ?thesis
        using 2(2) by (auto simp: outcomes_mapD)
    qed
  qed
  have "outcomes (getitem ?ds idx) \<noteq> {}"
    by (rule mass_outcomes) (rule mass_getitem)
  then have eq: "outcomes (getitem ?ds idx) = {Inl ValueError}"
    using sub by blast
  have "prob (getitem ?ds idx) (\<lambda>r. r = Inl ValueError) = mass (getitem ?ds idx)"
    by (rule prob_all) (simp add: eq)
  then show ?thesis
    using eq by (simp add: mass_getitem)
qed

lemma sum_pools:
  "(\<Sum>l<10. length (items_of corpus l)) = length (filter (\<lambda>(img, t). t < 10) corpus)"
proof (induction corpus)
  case Nil
  show ?case by (simp add: items_of_def)
next
  case (Cons a corpus)
  obtain img t where a: "a = (img, t)" by (cases a)
  have "(\<Sum>l<10. length (items_of (a # corpus) l)) =
        (\<Sum>l<10. (if t = l then 1 else 0) + length (items_of corpus l))"
    by (rule sum.cong) (simp_all add: items_of_def a)
  also have "\<dots> = (\<Sum>l<10. if t = l then 1 else 0) + (\<Sum>l<10. length (items_of corpus l))"
    by (simp add: sum.distrib)
  also have "(\<Sum>l<10. if t = l then 1 else 0) = (if t < 10 then 1 else (0::nat))"
    by (simp add: sum.delta)
  finally show ?case
    by (simp add: Cons.IH a)
qed

lemma ex_corpus_pools: "l < 10 \<Longrightarrow> pool_of (dataset_init n ex_corpus) l \<noteq> []"
proof -
  assume "l < 10"
  then have "l = 0 \<or> l = 1 \<or> l = 2 \<or> l = 3 \<or> l = 4 \<or> l = 5 \<or> l = 6 \<or> l = 7 \<or> l = 8 \<or> l = 9"
    by arith
  then show ?thesis
    by (auto simp: pool_init items_of_def ex_corpus_def)
qed

lemma ex_corpus_index: "py_index ex_corpus 5 = Inr (replicate 784 50, 5)"
  by (simp add: py_index_def ex_corpus_def)

lemma ex_corpus_gap_index: "py_index ex_corpus_gap 2 = Inr (replicate 784 20, 2)"
  by (simp add: py_index_def ex_corpus_gap_def)

text \<open>
  C6, as amended.  For every corpus, also one in which some label has no item,
  constructing the dataset succeeds (the constructor has no failing branch) and
  partitions the corpus by label: the pool of every label in 0..9 holds exactly the
  normalised images of that label, in corpus order (the empty list when there is none),
  no other key is in the dict, and the pool sizes add up to the number of items labelled
  0..9.
\<close>

theorem dataset_init_partitions:
  "ds_num_inputs (dataset_init n corpus) = n \<and> mnist (dataset_init n corpus) = corpus \<and>
   (\<forall>l. data (dataset_init n corpus) l = (if l < 10 then Some (items_of corpus l) else None)) \<and>
   (\<Sum>l<10. length (items_of corpus l)) = length (filter (\<lambda>(img, t). t < 10) corpus)"
  by (simp add: data_init sum_pools) (simp add: dataset_init_def)

theorem dataset_init_partitions_witness:
  "ds_num_inputs (dataset_init 3 ex_corpus) = 3 \<and>
   data (dataset_init 3 ex_corpus) 5 = Some [replicate 784 (50 / 255)] \<and>
   data (dataset_init 3 ex_corpus) 10 = None \<and>
   (\<Sum>l<10. length (items_of ex_corpus l)) = 10"
  using dataset_init_partitions[of 3 ex_corpus]
  by (simp add: items_of_def ex_corpus_def normalise_def)

text \<open>
  C6 as stated fails: built from a corpus with the digits 0, 1 and 2 only, the dataset
  exists and its pool for label 3 is empty.
\<close>

theorem dataset_init_partitions_counterexample:
  "data (dataset_init 2 ex_corpus_gap) 3 = Some [] \<and>
   data (dataset_init 2 ex_corpus_gap) 2 = Some [replicate 784 (20 / 255)]"
  by (simp add: data_init items_of_def ex_corpus_gap_def normalise_def)

text \<open>
  C5.  For every request whose query has class \<open>c\<close> when the pool of class
  \<open>(c + 1) mod 10\<close> is empty, \<open>__getitem__\<close> fails whatever the random source gives:
  its only outcome is the error, with probability 1, and no sample is returned.  The
  error is numpy's \<open>ValueError\<close> (\<open>randint\<close> on the empty range), which the
  specification calls \<open>DataUnavailableError\<close>.
\<close>

theorem getitem_empty_pool:
  assumes "py_index corpus idx = Inr (img, c)"
    and "pool_of (dataset_init n corpus) ((c + 1) mod 10) = []"
  shows "outcomes (getitem (dataset_init n corpus) idx) = {Inl ValueError} \<and>
         prob (getitem (dataset_init n corpus) idx) (\<lambda>r. r = Inl ValueError) = 1"
  using assms getitem_empty_pool_aux[of corpus idx img c n] by (simp add: pool_init)

theorem getitem_empty_pool_witness:
  "py_index ex_corpus_gap 2 = Inr (replicate 784 20, 2) \<and>
   pool_of (dataset_init 3 ex_corpus_gap) 3 = [] \<and>
   outcomes (getitem (dataset_init 3 ex_corpus_gap) 2) = {Inl ValueError} \<and>
   prob (getitem (dataset_init 3 ex_corpus_gap) 2) (\<lambda>r. r = Inl ValueError) = 1"
proof -
  have p: "pool_of (dataset_init 3 ex_corpus_gap) 3 = []"
    by (simp add: pool_init items_of_def ex_corpus_gap_def)
  then have "pool_of (dataset_init 3 ex_corpus_gap) ((2 + 1) mod 10) = []"
    by simp
  from getitem_empty_pool[OF ex_corpus_gap_index this] p ex_corpus_gap_index
  show ?thesis by simp
qed

text \<open>
  C1.  Let \<open>c\<close> be the class of the query at \<open>idx\<close> and \<open>n\<close> the number of candidate
  positions.  Erasing the recorded classes from the instrumented generator gives
  \<open>__getitem__\<close> itself.  Every sample it can return has \<open>0 <= correct_index < n\<close> and
  \<open>n\<close> candidates; the candidate at \<open>correct_index\<close> was drawn from the pool of class
  \<open>(c + 1) mod 10\<close>, every other candidate from the pool of a class in 0..9 different
  from \<open>(c + 1) mod 10\<close>.  When no pool is empty, every position is the correct one with
  probability \<open>1 / n\<close>, and every assignment of classes that has \<open>(c + 1) mod 10\<close> at
  position \<open>k\<close> and other classes elsewhere comes with \<open>correct_index = k\<close> with
  probability \<open>1 / n * (1 / 9) ^ (n - 1)\<close>: the correct position is uniform, and the
  distractor classes are uniform among the nine other classes and independent across
  positions, repeats included.
\<close>

theorem getitem_sample:
  assumes "py_index corpus idx = Inr (img, c)"
  shows "mapD fst (getitem_traced (dataset_init n corpus) idx) = getitem (dataset_init n corpus) idx \<and>
    (\<forall>r \<in> outcomes (getitem_traced (dataset_init n corpus) idx). \<forall>s cls. r = Inr (s, cls) \<longrightarrow>
       sample_y s < n \<and> length (sample_x s) = n \<and> length cls = n \<and>
       (\<forall>j<n. class_ok c (sample_y s) j (cls ! j) \<and>
               sample_x s ! j \<in> set (pool_of (dataset_init n corpus) (cls ! j)))) \<and>
    ((\<forall>l<10. pool_of (dataset_init n corpus) l \<noteq> []) \<longrightarrow>
       (\<forall>k<n. prob (getitem (dataset_init n corpus) idx) (returns (\<lambda>s. sample_y s = k)) = 1 / real n) \<and>
       (\<forall>k<n. \<forall>cs. length cs = n \<and> (\<forall>j<n. class_ok c k j (cs ! j)) \<longrightarrow>
          prob (getitem_traced (dataset_init n corpus) idx)
            (returns (\<lambda>v. sample_y (fst v) = k \<and> snd v = cs)) = 1 / real n * (1 / 9) ^ (n - 1)))"
proof (intro conjI ballI allI impI)
  show "mapD fst (getitem_traced (dataset_init n corpus) idx) = getitem (dataset_init n corpus) idx"
    by (rule fst_getitem_traced)
next
  fix r s cls
  assume r: "r \<in> outcomes (getitem_traced (dataset_init n corpus) idx)" "r = Inr (s, cls)"
  then have out: "Inr (s, cls) \<in> outcomes (getitem_traced (dataset_init n corpus) idx)"
    by simp
  note o = getitem_traced_outcomes[OF out assms]
  show "sample_y s < n" "length (sample_x s) = n" "length cls = n"
    using o by simp_all
  fix j assume j: "j < n"
  show "class_ok c (sample_y s) j (cls ! j)"
    using o j by simp
  then have "cls ! j < 10"
    by (simp add: class_ok_def split: if_splits)
  then show "sample_x s ! j \<in> set (pool_of (dataset_init n corpus) (cls ! j))"
    using o j by (simp add: pool_init)
next
  fix k
  assume ne: "\<forall>l<10. pool_of (dataset_init n corpus) l \<noteq> []" and k: "k < n"
  have ne': "\<And>l. l < 10 \<Longrightarrow> items_of corpus l \<noteq> []"
    using ne by (simp add: pool_init)
  show "prob (getitem (dataset_init n corpus) idx) (returns (\<lambda>s. sample_y s = k)) = 1 / real n"
    by (rule getitem_position_prob[OF assms ne' k])
next
  fix k cs
  assume ne: "\<forall>l<10. pool_of (dataset_init n corpus) l \<noteq> []" and k: "k < n"
    and cs: "length cs = n \<and> (\<forall>j<n. class_ok c k j (cs ! j))"
  have ne': "\<And>l. l < 10 \<Longrightarrow> items_of corpus l \<noteq> []"
    using ne by (simp add: pool_init)
  show "prob (getitem_traced (dataset_init n corpus) idx)
            (returns (\<lambda>v. sample_y (fst v) = k \<and> snd v = cs)) = 1 / real n * (1 / 9) ^ (n - 1)"
    using cs by (intro getitem_classes_prob[OF assms ne' k]) auto
qed

theorem getitem_sample_witness:
  "py_index ex_corpus 5 = Inr (replicate 784 50, 5) \<and>
   prob (getitem (dataset_init 3 ex_corpus) 5) (returns (\<lambda>s. sample_y s = 1)) = 1 / 3 \<and>
   prob (getitem_traced (dataset_init 3 ex_corpus) 5)
     (returns (\<lambda>v. sample_y (fst v) = 1 \<and> snd v = [0, 6, 9])) = 1 / 243"
proof -
  have ne: "\<forall>l<10. pool_of (dataset_init 3 ex_corpus) l \<noteq> []"
    by (simp add: ex_corpus_pools)
  have cs: "length [0, 6, 9 :: nat] = 3 \<and> (\<forall>j<3. class_ok 5 1 j ([0, 6, 9] ! j))"
    by (auto simp: class_ok_def less_Suc_eq numeral_3_eq_3)
  note t = getitem_sample[OF ex_corpus_index, of 3, THEN conjunct2, THEN conjunct2, THEN mp, OF ne]
  have "prob (getitem (dataset_init 3 ex_corpus) 5) (returns (\<lambda>s. sample_y s = 1)) = 1 / real (3::nat)"
    using t[THEN conjunct1, rule_format, of 1] by simp
  moreover have "prob (getitem_traced (dataset_init 3 ex_corpus) 5)
     (returns (\<lambda>v. sample_y (fst v) = 1 \<and> snd v = [0, 6, 9])) = 1 / real (3::nat) * (1 / 9) ^ (3 - 1)"
    using t[THEN conjunct2, rule_format, of 1 "[0, 6, 9]"] cs by simp
  ultimately show ?thesis
    by (simp add: ex_corpus_index power2_eq_square)
qed

section \<open>The claim about evaluate\<close>

lemma evaluate_loop_sum:
  "map (batch_correct m) bs = map Inr cs \<Longrightarrow>
   evaluate_loop m n bs ok total' = Inr (ok + real (sum_list cs), total' + real (length bs) * real n)"
proof (induction bs arbitrary: cs ok total')
  case Nil
  then show ?case by simp
next
  case (Cons b bs)
  then obtain c cs' where cs: "cs = c # cs'" and c: "batch_correct m b = Inr c"
    and rest: "map (batch_correct m) bs = map Inr cs'"
    by (cases cs) auto
  have "evaluate_loop m n (b # bs) ok total' = evaluate_loop m n bs (ok + real c) (total' + real n)"
    using c by (auto simp: batch_correct_def bindE_def split: sum.splits)
  then show ?case
    by (simp add: Cons.IH[OF rest] cs algebra_simps)
qed

lemma evaluate_loop_error:
  "batch_correct m b = Inl e \<Longrightarrow> evaluate_loop m n (b # bs) ok total' = Inl e"
  by (auto simp: batch_correct_def bindE_def split: sum.splits)

lemma ratio_eq:
  fixes s B n :: nat
  assumes "0 < B"
  shows "real s / (real B * real B) = real s / real n \<longleftrightarrow> s = 0 \<or> B * B = n"
proof (cases "s = 0")
  case True
  then show ?thesis by simp
next
  case False
  show ?thesis
  proof (cases "n = 0")
    case True
    then show ?thesis using False assms by simp
  next
    case n: False
    have "real s / (real B * real B) = real s / real n \<longleftrightarrow> real B * real B = real n"
      using False assms n by (simp add: field_simps)
    also have "\<dots> \<longleftrightarrow> B * B = n"
      by (metis of_nat_eq_iff of_nat_mult)
    finally show ?thesis using False by simp
  qed
qed

text \<open>
  C9.  For every loader with \<open>B >= 1\<close> batches on which the model, \<open>argmax\<close> and the
  comparison succeed, \<open>evaluate\<close> reports the number of correct predictions divided by
  \<open>B * B\<close>: the denominator grows by \<open>len(test_loader)\<close> once per batch.  That is the
  number of correct predictions divided by the number of samples only when no prediction
  is correct or the number of samples happens to be \<open>B * B\<close>.
\<close>

theorem evaluate_accuracy:
  assumes "test_loader \<noteq> []" and "map (batch_correct m) test_loader = map Inr cs"
  shows "evaluate m test_loader =
           Inr (real (sum_list cs) / (real (length test_loader) * real (length test_loader))) \<and>
         (evaluate m test_loader =
            Inr (real (sum_list cs) / real (\<Sum>b\<leftarrow>test_loader. dim0 (batch_x b))) \<longleftrightarrow>
          sum_list cs = 0 \<or>
          length test_loader * length test_loader = (\<Sum>b\<leftarrow>test_loader. dim0 (batch_x b)))"
proof -
  have B: "0 < length test_loader" using assms(1) by simp
  have ev: "evaluate m test_loader =
      Inr (real (sum_list cs) / (real (length test_loader) * real (length test_loader)))"
    using B by (simp add: evaluate_def evaluate_loop_sum[OF assms(2)] bindE_def)
  show ?thesis
    unfolding ev using ratio_eq[OF B] by (simp only: sum.inject simp_thms)
qed

lemma ex_batch_correct: "batch_correct ex_model0 ex_batch = Inr 2"
  by (simp add: batch_correct_def forward_def scoringAdditive_def bindE_def linear3_def repeat1_def
      unsqueeze1_def tanh3_def add3_def bdim_def expand_def squeeze_def linear_vec_def dot_def
      argmax_axis1_def argmax_list_def count_equal_def
      ex_model0_def ex_batch_def ex_query_def ex_keys_def numeral_2_eq_2 upt_rec)

theorem evaluate_accuracy_witness:
  "[ex_batch] \<noteq> [] \<and> map (batch_correct ex_model0) [ex_batch] = map Inr [2] \<and>
   dim0 (batch_x ex_batch) = 2 \<and>
   evaluate ex_model0 [ex_batch] = Inr 2 \<and> evaluate ex_model0 [ex_batch] \<noteq> Inr (2 / 2)"
  using evaluate_accuracy[of "[ex_batch]" ex_model0 "[2]"] ex_batch_correct
  by (simp add: ex_batch_def ex_keys_def)

end
